theory Spec2Isabelle
  imports Complex_Main
begin

section \<open>Exceptions\<close>

text \<open>
  Every exception the modelled Python can raise is a value of \<open>py_error\<close>; a call that
  may raise returns \<open>py_error + 'a\<close> with \<open>Inl\<close> for the exception.

  \<^item> \<open>RateLimitError\<close> is \<^verbatim>\<open>stripe.error.RateLimitError\<close>;
  \<^item> \<open>RemoteError\<close> is any other exception raised by a remote call;
  \<^item> \<open>RuntimeError clock_id attempts\<close> is
    \<^verbatim>\<open>RuntimeError(f'Failed to advance test clock {clock_id} after {max_advance_attempts} attempts')\<close>;
  \<^item> \<open>TimeoutError clock_id\<close> is the \<^verbatim>\<open>TimeoutError(f'TestClock {clock_id} not ready after ...')\<close>
    of the two polling loops;
  \<^item> \<open>ZeroDivisionError\<close> is what \<^verbatim>\<open>//\<close> raises on a zero divisor;
  \<^item> \<open>AttributeError\<close> is what \<^verbatim>\<open>[].auto_paging_iter()\<close> raises.
\<close>

datatype py_error =
    RateLimitError
  | RemoteError
  | RuntimeError string nat
  | TimeoutError string
  | ZeroDivisionError
  | AttributeError

section \<open>CycleScheduler: \<open>next_cycle_after\<close> (generate\_past\_due\_new.py)\<close>

text \<open>
  \<^verbatim>\<open>
  def next_cycle_after(billing_anchor, cycle_index, cur_frozen, month=30*24*3600):
      desired = int(billing_anchor) + int(cycle_index) * int(month) + 60
      if desired > cur_frozen:
          return desired
      elapsed = cur_frozen - int(billing_anchor) - 60
      if elapsed < 0:
          k = cycle_index
      else:
          k = (elapsed // month) + 1
      if k < cycle_index:
          k = cycle_index
      return int(billing_anchor) + k * int(month) + 60
  \<close>
  The arguments are Python integers (\<open>int\<close>); \<^verbatim>\<open>//\<close> is floor division, which is
  \<open>div\<close> on \<open>int\<close>, and raises on a zero divisor.
\<close>

definition next_cycle_after :: "int \<Rightarrow> int \<Rightarrow> int \<Rightarrow> int \<Rightarrow> py_error + int" where
  "next_cycle_after billing_anchor cycle_index cur_frozen month =
     (let desired = billing_anchor + cycle_index * month + 60 in
      if desired > cur_frozen then Inr desired
      else
        let elapsed = cur_frozen - billing_anchor - 60 in
        if elapsed < 0 then
          (let k = cycle_index;
               k' = (if k < cycle_index then cycle_index else k)
           in Inr (billing_anchor + k' * month + 60))
        else if month = 0 then Inl ZeroDivisionError
        else
          (let k = (elapsed div month) + 1;
               k' = (if k < cycle_index then cycle_index else k)
           in Inr (billing_anchor + k' * month + 60)))"

text \<open>
  The schedule as the specification words it: the nominal time when it lies after
  \<open>current\<close>, otherwise the cycle \<open>k = max(index, floor((current - anchor - epsilon) / interval) + 1)\<close>,
  with \<open>epsilon = 60\<close>.
\<close>

definition nextCycleAfter_spec :: "int \<Rightarrow> int \<Rightarrow> int \<Rightarrow> int \<Rightarrow> int" where
  "nextCycleAfter_spec anchor index current interval =
     (if anchor + index * interval + 60 > current then anchor + index * interval + 60
      else anchor + max index ((current - anchor - 60) div interval + 1) * interval + 60)"

section \<open>ClockAdvancer: \<open>advance_test_clock\<close> (generate\_date.py, generate\_upgrade.py)\<close>

text \<open>
  The scripts read a retrieved clock through the idiom
  \<^verbatim>\<open>getattr(tc, 'frozen_time', None) or (tc.get('frozen_time') if hasattr(tc, 'get') else None)\<close>,
  written for objects of more than one shape. A clock object is therefore modelled by
  what these reads return: \<open>attr_frozen_time\<close> is \<^verbatim>\<open>getattr(tc, 'frozen_time', None)\<close>
  (\<open>None\<close> when the attribute is missing or holds \<^verbatim>\<open>None\<close>), \<open>has_get\<close> is
  \<^verbatim>\<open>hasattr(tc, 'get')\<close>, \<open>key_frozen_time\<close> is \<^verbatim>\<open>tc.get('frozen_time')\<close>; likewise
  for \<^verbatim>\<open>status\<close>.
\<close>

record clock_obj =
  has_get :: bool
  attr_frozen_time :: "int option"
  key_frozen_time :: "int option"
  attr_status :: "string option"
  key_status :: "string option"

text \<open>
  \<^verbatim>\<open>a or b\<close> is \<^verbatim>\<open>a\<close> when \<^verbatim>\<open>a\<close> is truthy and \<^verbatim>\<open>b\<close> otherwise (\<^verbatim>\<open>b\<close> is only
  evaluated then). \<^verbatim>\<open>None\<close>, the integer \<^verbatim>\<open>0\<close> and the empty string are falsy.
\<close>

definition getattr_or_get :: "('a \<Rightarrow> bool) \<Rightarrow> 'a option \<Rightarrow> bool \<Rightarrow> 'a option \<Rightarrow> 'a option" where
  "getattr_or_get truthy a hg k =
     (case a of
        Some v \<Rightarrow> if truthy v then Some v else (if hg then k else None)
      | None \<Rightarrow> (if hg then k else None))"

definition read_frozen_time :: "clock_obj \<Rightarrow> int option" where
  "read_frozen_time tc =
     getattr_or_get (\<lambda>n. n \<noteq> 0) (attr_frozen_time tc) (has_get tc) (key_frozen_time tc)"

definition read_status :: "clock_obj \<Rightarrow> string option" where
  "read_status tc =
     getattr_or_get (\<lambda>s. s \<noteq> []) (attr_status tc) (has_get tc) (key_status tc)"

text \<open>
  The object the Stripe library returns is a \<^verbatim>\<open>StripeObject\<close>: a \<^verbatim>\<open>dict\<close> whose keys
  are also its attributes.
\<close>

definition stripe_clock :: "int \<Rightarrow> string \<Rightarrow> clock_obj" where
  "stripe_clock t st =
     \<lparr>has_get = True, attr_frozen_time = Some t, key_frozen_time = Some t,
      attr_status = Some st, key_status = Some st\<rparr>"

text \<open>
  What the function does to the outside, in order: the advance requests it sends and the
  back-off sleeps it takes.
\<close>

datatype call = Advance string int | Sleep rat

fun requests :: "call list \<Rightarrow> int list" where
  "requests [] = []"
| "requests (Advance i t # cs) = t # requests cs"
| "requests (Sleep d # cs) = requests cs"

text \<open>
  Lines 75-76: \<^verbatim>\<open>if cur is not None and frozen_time <= cur: frozen_time = cur + 1\<close>.
\<close>

definition effective_frozen_time :: "int option \<Rightarrow> int \<Rightarrow> int" where
  "effective_frozen_time cur frozen_time =
     (case cur of
        Some c \<Rightarrow> if frozen_time \<le> c then c + 1 else frozen_time
      | None \<Rightarrow> frozen_time)"

text \<open>
  The retry loop \<^verbatim>\<open>for attempt in range(max_advance_attempts)\<close>. \<open>adv attempt\<close> is what
  the remote does with the request of that attempt: \<open>None\<close> when the call returns,
  \<open>Some e\<close> when it raises \<open>e\<close>. Both \<^verbatim>\<open>except\<close> clauses (\<^verbatim>\<open>RateLimitError\<close> and
  \<^verbatim>\<open>Exception\<close>) run the same three statements. The first argument counts the
  iterations left; the result is the flag \<^verbatim>\<open>advanced\<close> and the calls made. The
  back-off values \<open>0.5 * 1.5^n\<close> below the cap are dyadic fractions, which binary floating
  point holds exactly, so \<open>rat\<close> computes what the floats do.
\<close>

fun advance_attempts ::
  "nat \<Rightarrow> nat \<Rightarrow> rat \<Rightarrow> string \<Rightarrow> int \<Rightarrow> (nat \<Rightarrow> py_error option) \<Rightarrow> bool \<times> call list" where
  "advance_attempts 0 attempt backoff clock_id ft adv = (False, [])"
| "advance_attempts (Suc n) attempt backoff clock_id ft adv =
     (case adv attempt of
        None \<Rightarrow> (True, [Advance clock_id ft])
      | Some e \<Rightarrow>
          (let (advanced, cs) =
                 advance_attempts n (Suc attempt) (min (backoff * (3 / 2)) 5) clock_id ft adv
           in (advanced, Advance clock_id ft # Sleep backoff # cs)))"

text \<open>
  One failed attempt of the retry loop, as it shows outside: the request, then the sleep
  of the back-off the loop has reached at attempt \<open>n\<close>.
\<close>

definition failed_attempt :: "string \<Rightarrow> int \<Rightarrow> nat \<Rightarrow> call list" where
  "failed_attempt clock_id ft n = [Advance clock_id ft, Sleep (min (1 / 2 * (3 / 2) ^ n) 5)]"

text \<open>
  The polling loop \<^verbatim>\<open>while True\<close>. Each iteration retrieves the clock and then reads
  the wall clock; one element of the list is what one iteration sees: the result of
  \<^verbatim>\<open>retrieve\<close> and whether \<^verbatim>\<open>time.time() - start > timeout\<close> held. An exception inside
  the \<^verbatim>\<open>try\<close> is swallowed. The loop has no bound of its own: when the list ends
  before the loop has returned or raised, the result is \<open>None\<close>.
\<close>

type_synonym poll = "(py_error + clock_obj) \<times> bool"

definition ready_at :: "int \<Rightarrow> clock_obj \<Rightarrow> bool" where
  "ready_at ft tc2 =
     (read_status tc2 = Some ''ready'' \<and>
      (case read_frozen_time tc2 of None \<Rightarrow> True | Some new_frozen \<Rightarrow> ft \<le> new_frozen))"

fun poll_until_ready :: "string \<Rightarrow> int \<Rightarrow> poll list \<Rightarrow> (py_error + clock_obj) option" where
  "poll_until_ready clock_id ft [] = None"
| "poll_until_ready clock_id ft ((r, expired) # ps) =
     (case r of
        Inr tc2 \<Rightarrow>
          if ready_at ft tc2 then Some (Inr tc2)
          else if expired then Some (Inl (TimeoutError clock_id))
          else poll_until_ready clock_id ft ps
      | Inl e \<Rightarrow>
          if expired then Some (Inl (TimeoutError clock_id))
          else poll_until_ready clock_id ft ps)"

text \<open>
  The remote side of one call of \<^verbatim>\<open>advance_test_clock(stripe_module, clock_id, frozen_time)\<close>:
  the first \<^verbatim>\<open>retrieve\<close>, the outcome of each advance attempt, and what the polling
  iterations see.
\<close>

record stripe_module =
  first_retrieve :: "py_error + clock_obj"
  advance_outcome :: "nat \<Rightarrow> py_error option"
  polls :: "poll list"

text \<open>
  \<^verbatim>\<open>
  def advance_test_clock(stripe_module, clock_id, frozen_time):
      try:
          tc = stripe_module.test_helpers.TestClock.retrieve(clock_id)
          cur = getattr(tc, 'frozen_time', None) or (tc.get('frozen_time') if hasattr(tc, 'get') else None)
      except Exception:
          cur = None
      if cur is not None and frozen_time <= cur:
          frozen_time = cur + 1
      max_advance_attempts = 8
      backoff = 0.5
      advanced = False
      for attempt in range(max_advance_attempts):
          try:
              stripe_module.test_helpers.TestClock.advance(clock_id, frozen_time=frozen_time)
              advanced = True
              break
          except stripe.error.RateLimitError:
              time.sleep(backoff)
              backoff = min(backoff * 1.5, 5.0)
              continue
          except Exception:
              time.sleep(backoff)
              backoff = min(backoff * 1.5, 5.0)
              continue
      if not advanced:
          raise RuntimeError(f'Failed to advance test clock {clock_id} after {max_advance_attempts} attempts')
      timeout = 60
      start = time.time()
      while True:
          try:
              tc2 = stripe_module.test_helpers.TestClock.retrieve(clock_id)
              status = getattr(tc2, 'status', None) or (tc2.get('status') if hasattr(tc2, 'get') else None)
              new_frozen = getattr(tc2, 'frozen_time', None) or (tc2.get('frozen_time') if hasattr(tc2, 'get') else None)
              if status == 'ready' and (new_frozen is None or new_frozen >= frozen_time):
                  return tc2
          except Exception:
              pass
          if time.time() - start > timeout:
              raise TimeoutError(...)
          time.sleep(1)
  \<close>
  \<open>observed_frozen_time\<close> is the first \<^verbatim>\<open>try\<close> statement: the \<^verbatim>\<open>retrieve\<close> and the read
  of \<^verbatim>\<open>cur\<close>.
\<close>

definition observed_frozen_time :: "stripe_module \<Rightarrow> int option" where
  "observed_frozen_time m =
     (case first_retrieve m of Inr tc \<Rightarrow> read_frozen_time tc | Inl e \<Rightarrow> None)"

definition advance_test_clock ::
  "stripe_module \<Rightarrow> string \<Rightarrow> int \<Rightarrow> call list \<times> (py_error + clock_obj) option" where
  "advance_test_clock m clock_id frozen_time =
     (let cur = observed_frozen_time m;
          ft = effective_frozen_time cur frozen_time;
          max_advance_attempts = 8;
          (advanced, cs) =
             advance_attempts max_advance_attempts 0 (1 / 2) clock_id ft (advance_outcome m)
      in if \<not> advanced then (cs, Some (Inl (RuntimeError clock_id max_advance_attempts)))
         else (cs, poll_until_ready clock_id ft (polls m)))"

section \<open>ClockAdvancer: \<open>advance_clock\<close> (generate\_past\_due\_new.py)\<close>

text \<open>
  This script reads the clock with plain subscripts and attributes
  (\<^verbatim>\<open>tc["frozen_time"]\<close>, \<^verbatim>\<open>tc.get("status")\<close>), so a retrieved clock is the pair of its
  two fields. The timestamps are taken to lie in the range \<^verbatim>\<open>datetime\<close> can print.
\<close>

record test_clock =
  tc_frozen_time :: int
  tc_status :: string

text \<open>
  \<^verbatim>\<open>
  def wait_until_testclock_ready(test_clock_id, timeout_sec=240):
      start = time.time()
      while True:
          tc = stripe.test_helpers.TestClock.retrieve(test_clock_id)
          status = tc.get("status")
          if status == "ready":
              return tc
          if time.time() - start > timeout_sec:
              raise TimeoutError(...)
          time.sleep(1)
  \<close>
  One element of the list is one iteration: the result of \<^verbatim>\<open>retrieve\<close> (not inside a
  \<^verbatim>\<open>try\<close> here, so an exception leaves the function) and whether the time budget was
  found exceeded.
\<close>

fun wait_until_testclock_ready ::
  "string \<Rightarrow> ((py_error + test_clock) \<times> bool) list \<Rightarrow> (py_error + test_clock) option" where
  "wait_until_testclock_ready test_clock_id [] = None"
| "wait_until_testclock_ready test_clock_id ((r, expired) # ps) =
     (case r of
        Inl e \<Rightarrow> Some (Inl e)
      | Inr tc \<Rightarrow>
          if tc_status tc = ''ready'' then Some (Inr tc)
          else if expired then Some (Inl (TimeoutError test_clock_id))
          else wait_until_testclock_ready test_clock_id ps)"

text \<open>
  \<^verbatim>\<open>
  def advance_clock(test_clock_id, new_frozen_time):
      tc = stripe.test_helpers.TestClock.retrieve(test_clock_id)
      cur = tc["frozen_time"]
      if new_frozen_time <= cur:
          adj = cur + 1
          print(f"[Warning] requested frozen_time {new_frozen_time} <= current frozen_time {cur}; using {adj} instead")
          new_frozen_time = adj
      ...
      stripe.test_helpers.TestClock.advance(test_clock_id, frozen_time=new_frozen_time)
      wait_until_testclock_ready(test_clock_id)
      tc2 = stripe.test_helpers.TestClock.retrieve(test_clock_id)
      print(f"  done: frozen_time={tc2['frozen_time']} ... status={tc2['status']}")
  \<close>
  The remote side of one call of \<^verbatim>\<open>advance_clock\<close>: the first \<^verbatim>\<open>retrieve\<close>, the single
  advance request, the polling iterations and the closing \<^verbatim>\<open>retrieve\<close> whose fields are
  printed. The function returns no value; what it shows of itself is the warning it
  prints, the request it sends and the closing line
  \<^verbatim>\<open>done: frozen_time=... status=...\<close>.
\<close>

record advance_world =
  aw_first :: "py_error + test_clock"
  aw_advance :: "py_error option"
  aw_polls :: "((py_error + test_clock) \<times> bool) list"
  aw_last :: "py_error + test_clock"

datatype notice = Warning int int int | AdvanceCall string int | Done int string

definition advance_clock ::
  "advance_world \<Rightarrow> string \<Rightarrow> int \<Rightarrow> notice list \<times> (py_error + unit) option" where
  "advance_clock w test_clock_id new_frozen_time =
     (case aw_first w of
        Inl e \<Rightarrow> ([], Some (Inl e))
      | Inr tc \<Rightarrow>
          (let cur = tc_frozen_time tc;
               warned = (if new_frozen_time \<le> cur
                         then [Warning new_frozen_time cur (cur + 1)] else []);
               new_frozen_time' = (if new_frozen_time \<le> cur then cur + 1 else new_frozen_time);
               sent = warned @ [AdvanceCall test_clock_id new_frozen_time']
           in case aw_advance w of
                Some e \<Rightarrow> (sent, Some (Inl e))
              | None \<Rightarrow>
                  (case wait_until_testclock_ready test_clock_id (aw_polls w) of
                     None \<Rightarrow> (sent, None)
                   | Some (Inl e) \<Rightarrow> (sent, Some (Inl e))
                   | Some (Inr ready) \<Rightarrow>
                       (case aw_last w of
                          Inl e \<Rightarrow> (sent, Some (Inl e))
                        | Inr tc2 \<Rightarrow>
                            (sent @ [Done (tc_frozen_time tc2) (tc_status tc2)],
                             Some (Inr ()))))))"

section \<open>Remote behaviours used as test inputs\<close>

text \<open>
  A remote that throttles the first two advance requests, then reports the clock
  \<^verbatim>\<open>advancing\<close> once and \<^verbatim>\<open>ready\<close> at 101.
\<close>

definition prompt_module :: stripe_module where
  "prompt_module =
     \<lparr>first_retrieve = Inr (stripe_clock 100 ''ready''),
      advance_outcome = (\<lambda>n. if n < 2 then Some RateLimitError else None),
      polls = [(Inr (stripe_clock 100 ''advancing''), False),
               (Inr (stripe_clock 101 ''ready''), False)]\<rparr>"

text \<open>A remote that throttles every advance request.\<close>

definition throttled_module :: stripe_module where
  "throttled_module =
     \<lparr>first_retrieve = Inr (stripe_clock 100 ''ready''),
      advance_outcome = (\<lambda>n. Some RateLimitError),
      polls = []\<rparr>"

text \<open>A clock frozen at the epoch, returned as a \<^verbatim>\<open>StripeObject\<close>.\<close>

definition epoch_module :: stripe_module where
  "epoch_module =
     \<lparr>first_retrieve = Inr (stripe_clock 0 ''ready''),
      advance_outcome = (\<lambda>n. None),
      polls = [(Inr (stripe_clock 1 ''ready''), False)]\<rparr>"

text \<open>A remote whose first \<^verbatim>\<open>retrieve\<close> raises.\<close>

definition unreachable_module :: stripe_module where
  "unreachable_module =
     \<lparr>first_retrieve = Inl RemoteError,
      advance_outcome = (\<lambda>n. None),
      polls = [(Inr (stripe_clock 100 ''ready''), False)]\<rparr>"

text \<open>
  An object that has the attributes but no \<^verbatim>\<open>get\<close> method, frozen at the epoch.
\<close>

definition bare_epoch_clock :: clock_obj where
  "bare_epoch_clock =
     \<lparr>has_get = False, attr_frozen_time = Some 0, key_frozen_time = None,
      attr_status = Some ''ready'', key_status = None\<rparr>"

definition bare_module :: stripe_module where
  "bare_module =
     \<lparr>first_retrieve = Inr bare_epoch_clock,
      advance_outcome = (\<lambda>n. None),
      polls = [(Inr bare_epoch_clock, False)]\<rparr>"

text \<open>
  For \<^verbatim>\<open>advance_clock\<close>: a remote at 100 that completes the advance to 101 after one
  \<^verbatim>\<open>advancing\<close> poll; a remote that still reports \<^verbatim>\<open>ready\<close> at 100 after the request;
  a remote that throttles the request.
\<close>

definition settling_world :: advance_world where
  "settling_world =
     \<lparr>aw_first = Inr \<lparr>tc_frozen_time = 100, tc_status = ''ready''\<rparr>,
      aw_advance = None,
      aw_polls = [(Inr \<lparr>tc_frozen_time = 100, tc_status = ''advancing''\<rparr>, False),
                  (Inr \<lparr>tc_frozen_time = 101, tc_status = ''ready''\<rparr>, False)],
      aw_last = Inr \<lparr>tc_frozen_time = 101, tc_status = ''ready''\<rparr>\<rparr>"

definition stale_world :: advance_world where
  "stale_world =
     \<lparr>aw_first = Inr \<lparr>tc_frozen_time = 100, tc_status = ''ready''\<rparr>,
      aw_advance = None,
      aw_polls = [(Inr \<lparr>tc_frozen_time = 100, tc_status = ''ready''\<rparr>, False)],
      aw_last = Inr \<lparr>tc_frozen_time = 100, tc_status = ''ready''\<rparr>\<rparr>"

definition throttled_world :: advance_world where
  "throttled_world =
     \<lparr>aw_first = Inr \<lparr>tc_frozen_time = 100, tc_status = ''ready''\<rparr>,
      aw_advance = Some RateLimitError,
      aw_polls = [],
      aw_last = Inr \<lparr>tc_frozen_time = 100, tc_status = ''ready''\<rparr>\<rparr>"

section \<open>DunningAdvancer: \<open>advance_through_retries\<close> (generate\_past\_due\_new.py)\<close>

text \<open>
  The expanded \<^verbatim>\<open>latest_invoice\<close> of a subscription, by the two fields the loop reads:
  \<^verbatim>\<open>li.get("status")\<close> and \<^verbatim>\<open>li.get("next_payment_attempt")\<close>.
\<close>

record latest_invoice =
  li_status :: "string option"
  li_next_payment_attempt :: "int option"

text \<open>
  The remote side of one iteration of the loop: the \<^verbatim>\<open>Subscription.retrieve\<close> (its result
  is the subscription's \<^verbatim>\<open>latest_invoice\<close>, \<open>None\<close> when there is none), the
  \<^verbatim>\<open>TestClock.retrieve\<close> that reads \<^verbatim>\<open>cur\<close>, the \<^verbatim>\<open>advance_clock\<close> call, and
  \<^verbatim>\<open>retrieve_triplet\<close> (\<open>Some e\<close> when it raises \<open>e\<close>).
\<close>

record round_world =
  rw_subscription :: "py_error + latest_invoice option"
  rw_clock :: "py_error + test_clock"
  rw_advance :: advance_world
  rw_triplet :: "py_error option"

text \<open>
  How one iteration ends: \<^verbatim>\<open>break\<close>, on to the next iteration, an exception (nothing in
  the loop catches one), or no end at all because the polling inside \<^verbatim>\<open>advance_clock\<close>
  did not come to one.
\<close>

datatype flow = Break | Next | Raised py_error | Stuck

text \<open>
  The body of \<^verbatim>\<open>for round_idx in range(max_rounds)\<close> (lines 332-371):
  \<^verbatim>\<open>
  sub = stripe.Subscription.retrieve(sub_id, expand=["latest_invoice.payment_intent"])
  li = ... sub.latest_invoice ...
  if not li:
      break
  inv_status = li.get("status") ...
  next_attempt = li.get("next_payment_attempt") ...
  if inv_status == "paid":
      break
  if next_attempt:
      cur = stripe.test_helpers.TestClock.retrieve(tc_id).frozen_time
      target = int(next_attempt) + int(buffer_seconds)
      if target <= cur:
          target = cur + 1
      advance_clock(tc_id, target)
      retrieve_triplet(sub_id)
      continue
  cur = stripe.test_helpers.TestClock.retrieve(tc_id).frozen_time
  advance_clock(tc_id, cur + 24 * 3600)
  retrieve_triplet(sub_id)
  \<close>
  \<^verbatim>\<open>if next_attempt\<close> holds for a value that is neither \<^verbatim>\<open>None\<close> nor \<open>0\<close>.
\<close>

definition retry_round :: "round_world \<Rightarrow> string \<Rightarrow> int \<Rightarrow> notice list \<times> flow" where
  "retry_round rw tc_id buffer_seconds =
     (case rw_subscription rw of
        Inl e \<Rightarrow> ([], Raised e)
      | Inr None \<Rightarrow> ([], Break)
      | Inr (Some li) \<Rightarrow>
          if li_status li = Some ''paid'' then ([], Break)
          else if li_next_payment_attempt li \<noteq> None \<and> li_next_payment_attempt li \<noteq> Some 0 then
            (case rw_clock rw of
               Inl e \<Rightarrow> ([], Raised e)
             | Inr c \<Rightarrow>
                 (let cur = tc_frozen_time c;
                      target = the (li_next_payment_attempt li) + buffer_seconds;
                      target' = (if target \<le> cur then cur + 1 else target)
                  in case advance_clock (rw_advance rw) tc_id target' of
                       (out, None) \<Rightarrow> (out, Stuck)
                     | (out, Some (Inl e)) \<Rightarrow> (out, Raised e)
                     | (out, Some (Inr u)) \<Rightarrow>
                         (case rw_triplet rw of
                            Some e \<Rightarrow> (out, Raised e)
                          | None \<Rightarrow> (out, Next))))
          else
            (case rw_clock rw of
               Inl e \<Rightarrow> ([], Raised e)
             | Inr c \<Rightarrow>
                 (let cur = tc_frozen_time c
                  in case advance_clock (rw_advance rw) tc_id (cur + 24 * 3600) of
                       (out, None) \<Rightarrow> (out, Stuck)
                     | (out, Some (Inl e)) \<Rightarrow> (out, Raised e)
                     | (out, Some (Inr u)) \<Rightarrow>
                         (case rw_triplet rw of
                            Some e \<Rightarrow> (out, Raised e)
                          | None \<Rightarrow> (out, Next)))))"

text \<open>
  The loop. The first argument counts the iterations \<^verbatim>\<open>range(max_rounds)\<close> has left,
  the second is \<^verbatim>\<open>round_idx\<close>. The result is the number of iterations begun, what the
  \<^verbatim>\<open>advance_clock\<close> calls showed, and how the function ended: \<open>Some (Inr ())\<close> when
  it returned, \<open>Some (Inl e)\<close> when it raised \<open>e\<close>, \<open>None\<close> when it did not end.
\<close>

fun retry_rounds ::
  "nat \<Rightarrow> nat \<Rightarrow> (nat \<Rightarrow> round_world) \<Rightarrow> string \<Rightarrow> int
   \<Rightarrow> nat \<times> notice list \<times> (py_error + unit) option" where
  "retry_rounds 0 round_idx world tc_id buffer_seconds = (0, [], Some (Inr ()))"
| "retry_rounds (Suc n) round_idx world tc_id buffer_seconds =
     (case retry_round (world round_idx) tc_id buffer_seconds of
        (out, Break) \<Rightarrow> (1, out, Some (Inr ()))
      | (out, Raised e) \<Rightarrow> (1, out, Some (Inl e))
      | (out, Stuck) \<Rightarrow> (1, out, None)
      | (out, Next) \<Rightarrow>
          (let (k, out', r) = retry_rounds n (Suc round_idx) world tc_id buffer_seconds
           in (Suc k, out @ out', r)))"

text \<open>
  \<^verbatim>\<open>range(max_rounds)\<close> is empty for \<^verbatim>\<open>max_rounds <= 0\<close>: it has \<open>nat max_rounds\<close>
  elements.
\<close>

definition advance_through_retries ::
  "(nat \<Rightarrow> round_world) \<Rightarrow> string \<Rightarrow> string \<Rightarrow> int \<Rightarrow> int
   \<Rightarrow> nat \<times> notice list \<times> (py_error + unit) option" where
  "advance_through_retries world tc_id sub_id buffer_seconds max_rounds =
     retry_rounds (nat max_rounds) 0 world tc_id buffer_seconds"

text \<open>
  A subscription whose invoice stays \<^verbatim>\<open>open\<close> with a retry scheduled at 1000, on a
  remote that completes every advance at once; and one whose invoice is found paid in
  the third iteration.
\<close>

definition settled_at :: "int \<Rightarrow> advance_world" where
  "settled_at t =
     \<lparr>aw_first = Inr \<lparr>tc_frozen_time = 100, tc_status = ''ready''\<rparr>,
      aw_advance = None,
      aw_polls = [(Inr \<lparr>tc_frozen_time = t, tc_status = ''ready''\<rparr>, False)],
      aw_last = Inr \<lparr>tc_frozen_time = t, tc_status = ''ready''\<rparr>\<rparr>"

definition never_paid :: "nat \<Rightarrow> round_world" where
  "never_paid i =
     \<lparr>rw_subscription =
        Inr (Some \<lparr>li_status = Some ''open'', li_next_payment_attempt = Some 1000\<rparr>),
      rw_clock = Inr \<lparr>tc_frozen_time = 100, tc_status = ''ready''\<rparr>,
      rw_advance = settled_at 1060,
      rw_triplet = None\<rparr>"

definition paid_in_third :: "nat \<Rightarrow> round_world" where
  "paid_in_third i =
     (if i < 2 then never_paid i
      else never_paid i
             \<lparr>rw_subscription :=
                Inr (Some \<lparr>li_status = Some ''paid'', li_next_payment_attempt = None\<rparr>)\<rparr>)"

section \<open>InvoiceReconciler: the payment loops of \<open>main\<close> (generate\_date.py)\<close>

text \<open>
  The run-wide counters \<^verbatim>\<open>summary\<close>.
\<close>

record summary =
  created_customers :: nat
  subscriptions :: nat
  invoices_paid :: nat
  invoices_unpaid :: nat

text \<open>
  One invoice as one pass over \<^verbatim>\<open>Invoice.list(...).auto_paging_iter()\<close> meets it: its id,
  the status the listing shows, and what the remote does with the calls the pass may
  make for it: \<^verbatim>\<open>finalize_invoice\<close> and \<^verbatim>\<open>pay\<close> return or raise, \<^verbatim>\<open>retrieve\<close>
  returns the invoice again (its status) or raises. The invoices are \<^verbatim>\<open>StripeObject\<close>s
  with a status string, on which
  \<^verbatim>\<open>getattr(inv, 'status', None) or (inv.get('status') if hasattr(inv, 'get') else None)\<close>
  is the status.
\<close>

record invoice =
  inv_id :: string
  inv_status :: string
  finalize_outcome :: "py_error option"
  retrieve_outcome :: "py_error + string"
  pay_outcome :: "py_error option"

text \<open>
  The calls a pass makes on invoices; \<open>Pay i ok\<close> records whether the call returned.
\<close>

datatype invoice_call = Finalize string | Retrieve string | Pay string bool

fun paid_ids :: "invoice_call list \<Rightarrow> string list" where
  "paid_ids [] = []"
| "paid_ids (Pay i ok # cs) = (if ok then i # paid_ids cs else paid_ids cs)"
| "paid_ids (c # cs) = paid_ids cs"

text \<open>
  The monthly loop of the canceled flow (lines 411-421):
  \<^verbatim>\<open>
  try:
      invoices = stripe.Invoice.list(customer=customer.id)
      for inv in invoices.auto_paging_iter():
          if inv.status in ('open', 'draft'):
              try:
                  stripe.Invoice.pay(inv.id)
                  summary['invoices_paid'] += 1
              except Exception:
                  pass
  except Exception:
      pass
  \<close>
\<close>

fun pay_listed_canceled :: "invoice list \<Rightarrow> summary \<Rightarrow> invoice_call list \<times> summary" where
  "pay_listed_canceled [] s = ([], s)"
| "pay_listed_canceled (iv # invs) s =
     (if inv_status iv = ''open'' \<or> inv_status iv = ''draft'' then
        (case pay_outcome iv of
           None \<Rightarrow>
             (let (cs, s') = pay_listed_canceled invs (s\<lparr>invoices_paid := invoices_paid s + 1\<rparr>)
              in (Pay (inv_id iv) True # cs, s'))
         | Some e \<Rightarrow>
             (let (cs, s') = pay_listed_canceled invs s
              in (Pay (inv_id iv) False # cs, s')))
      else pay_listed_canceled invs s)"

definition pay_invoices_canceled ::
  "(py_error + invoice list) \<Rightarrow> summary \<Rightarrow> invoice_call list \<times> summary" where
  "pay_invoices_canceled listing s =
     (case listing of Inl e \<Rightarrow> ([], s) | Inr invs \<Rightarrow> pay_listed_canceled invs s)"

text \<open>
  The monthly loop of the active flow (lines 514-524): the same, with
  \<^verbatim>\<open>except Exception: summary['invoices_unpaid'] += 1\<close> around the payment.
\<close>

fun pay_listed_active :: "invoice list \<Rightarrow> summary \<Rightarrow> invoice_call list \<times> summary" where
  "pay_listed_active [] s = ([], s)"
| "pay_listed_active (iv # invs) s =
     (if inv_status iv = ''open'' \<or> inv_status iv = ''draft'' then
        (case pay_outcome iv of
           None \<Rightarrow>
             (let (cs, s') = pay_listed_active invs (s\<lparr>invoices_paid := invoices_paid s + 1\<rparr>)
              in (Pay (inv_id iv) True # cs, s'))
         | Some e \<Rightarrow>
             (let (cs, s') = pay_listed_active invs (s\<lparr>invoices_unpaid := invoices_unpaid s + 1\<rparr>)
              in (Pay (inv_id iv) False # cs, s')))
      else pay_listed_active invs s)"

definition pay_invoices_active ::
  "(py_error + invoice list) \<Rightarrow> summary \<Rightarrow> invoice_call list \<times> summary" where
  "pay_invoices_active listing s =
     (case listing of Inl e \<Rightarrow> ([], s) | Inr invs \<Rightarrow> pay_listed_active invs s)"

text \<open>
  The block after the auto-advance (lines 444-478 and 538-573, the same text in both
  flows):
  \<^verbatim>\<open>
  try:
      for attempt in range(3):
          anything = False
          try:
              invoices = stripe.Invoice.list(customer=customer.id)
          except Exception:
              invoices = []
          for inv in invoices.auto_paging_iter():
              st = getattr(inv, 'status', None) or (...)
              if st == 'draft':
                  try:
                      stripe.Invoice.finalize_invoice(inv.id)
                      anything = True
                      time.sleep(0.2)
                  except Exception:
                      pass
              st2 = st
              try:
                  inv2 = stripe.Invoice.retrieve(inv.id)
                  st2 = getattr(inv2, 'status', None) or (...)
              except Exception:
                  pass
              if st2 in ('open', 'draft'):
                  try:
                      stripe.Invoice.pay(inv.id)
                      summary['invoices_paid'] += 1
                      anything = True
                  except Exception:
                      pass
          if not anything:
              break
          time.sleep(0.5)
  except Exception:
      pass
  \<close> \<open>rechecked_status\<close> is \<^verbatim>\<open>st2\<close>: the status of the invoice retrieved again, or
  the listed status when \<^verbatim>\<open>retrieve\<close> raises. \<open>finalize_and_pay\<close> is the inner
  \<^verbatim>\<open>for inv in invoices.auto_paging_iter()\<close>; its third argument and third result are
  the flag \<^verbatim>\<open>anything\<close>.
\<close>

definition rechecked_status :: "invoice \<Rightarrow> string" where
  "rechecked_status iv =
     (case retrieve_outcome iv of Inr st2 \<Rightarrow> st2 | Inl e \<Rightarrow> inv_status iv)"

fun finalize_and_pay ::
  "invoice list \<Rightarrow> summary \<Rightarrow> bool \<Rightarrow> invoice_call list \<times> summary \<times> bool" where
  "finalize_and_pay [] s anything = ([], s, anything)"
| "finalize_and_pay (iv # invs) s anything =
     (let st = inv_status iv;
          finalized = (st = ''draft'' \<and> finalize_outcome iv = None);
          c1 = (if st = ''draft'' then [Finalize (inv_id iv)] else []);
          st2 = rechecked_status iv;
          tried = (st2 = ''open'' \<or> st2 = ''draft'');
          paid = (tried \<and> pay_outcome iv = None);
          c2 = (if tried then [Pay (inv_id iv) paid] else []);
          s1 = (if paid then s\<lparr>invoices_paid := invoices_paid s + 1\<rparr> else s);
          (cs, s', anything') = finalize_and_pay invs s1 (anything \<or> finalized \<or> paid)
      in (c1 @ [Retrieve (inv_id iv)] @ c2 @ cs, s', anything'))"

text \<open>
  \<^verbatim>\<open>for attempt in range(3)\<close>, inside \<^verbatim>\<open>try: ... except Exception: pass\<close>. \<open>listing attempt\<close>
  is the result of \<^verbatim>\<open>Invoice.list\<close> in that pass. When the listing raises,
  \<^verbatim>\<open>invoices = []\<close> and \<^verbatim>\<open>invoices.auto_paging_iter()\<close> raises \<^verbatim>\<open>AttributeError\<close>, which
  the outer \<^verbatim>\<open>except\<close> swallows: the block is over.
\<close>

fun reconcile_attempts ::
  "nat \<Rightarrow> nat \<Rightarrow> (nat \<Rightarrow> py_error + invoice list) \<Rightarrow> summary
   \<Rightarrow> invoice_call list \<times> summary" where
  "reconcile_attempts 0 attempt listing s = ([], s)"
| "reconcile_attempts (Suc n) attempt listing s =
     (case listing attempt of
        Inl e \<Rightarrow> ([], s)
      | Inr invs \<Rightarrow>
          (let (cs, s', anything) = finalize_and_pay invs s False
           in if \<not> anything then (cs, s')
              else (let (cs2, s2) = reconcile_attempts n (Suc attempt) listing s'
                    in (cs @ cs2, s2))))"

definition reconcile :: "(nat \<Rightarrow> py_error + invoice list) \<Rightarrow> summary \<Rightarrow> invoice_call list \<times> summary" where
  "reconcile listing s = reconcile_attempts 3 0 listing s"

text \<open>
  The invoices a pass lists (none when the listing raises), and the invoices for which
  the pass reaches \<^verbatim>\<open>stripe.Invoice.pay\<close>: those whose re-checked status is \<^verbatim>\<open>open\<close> or
  \<^verbatim>\<open>draft\<close>.
\<close>

definition listed :: "(py_error + invoice list) \<Rightarrow> invoice list" where
  "listed l = (case l of Inr invs \<Rightarrow> invs | Inl e \<Rightarrow> [])"

definition seen_unpaid :: "invoice \<Rightarrow> bool" where
  "seen_unpaid iv = (rechecked_status iv = ''open'' \<or> rechecked_status iv = ''draft'')"

text \<open>
  Listings for the examples: an open invoice that the first pass pays and the later
  passes find paid; an invoice that every pass finds paid.
\<close>

definition open_invoice :: invoice where
  "open_invoice =
     \<lparr>inv_id = ''in_1'', inv_status = ''open'', finalize_outcome = None,
      retrieve_outcome = Inr ''open'', pay_outcome = None\<rparr>"

definition paid_invoice :: invoice where
  "paid_invoice =
     \<lparr>inv_id = ''in_1'', inv_status = ''paid'', finalize_outcome = None,
      retrieve_outcome = Inr ''paid'', pay_outcome = None\<rparr>"

definition paid_on_first_pass :: "nat \<Rightarrow> py_error + invoice list" where
  "paid_on_first_pass attempt = (if attempt = 0 then Inr [open_invoice] else Inr [paid_invoice])"

definition always_paid :: "nat \<Rightarrow> py_error + invoice list" where
  "always_paid attempt = Inr [paid_invoice]"

definition empty_summary :: summary where
  "empty_summary =
     \<lparr>created_customers = 0, subscriptions = 0, invoices_paid = 0, invoices_unpaid = 0\<rparr>"

text \<open>
  The calls one pass makes for one invoice, in order.
\<close>

definition calls_for :: "invoice \<Rightarrow> invoice_call list" where
  "calls_for iv =
     (if inv_status iv = ''draft'' then [Finalize (inv_id iv)] else [])
     @ [Retrieve (inv_id iv)]
     @ (if seen_unpaid iv then [Pay (inv_id iv) (pay_outcome iv = None)] else [])"

text \<open>An open invoice whose payment raises (a declined card).\<close>

definition declined_invoice :: invoice where
  "declined_invoice =
     \<lparr>inv_id = ''in_2'', inv_status = ''open'', finalize_outcome = None,
      retrieve_outcome = Inr ''open'', pay_outcome = Some RemoteError\<rparr>"

section \<open>ScenarioOrchestrator: the month loop of \<open>main\<close> (generate\_date.py)\<close>

text \<open>
  Lines 502-524, the active flow:
  \<^verbatim>\<open>
  for m2 in range(months_remaining):
      current_dt = (start + timedelta(days=30 * (month + m2))).replace(hour=0, ...)
      current_ts = ts(current_dt)
      try:
          advance_test_clock(stripe, tc.id, frozen_time=current_ts)
      except Exception as e:
          print(f'  Warning: failed to advance test clock to {current_ts} for {email}: {e}')
      ...
      try:
          invoices = stripe.Invoice.list(customer=customer.id)
          for inv in invoices.auto_paging_iter(): ...
      except Exception:
          pass
  \<close>
  \<^verbatim>\<open>start\<close> is midnight UTC, so \<^verbatim>\<open>current_ts\<close> is \<open>start_ts + 2592000 * (month + m2)\<close>.
  The remote side of one month is the remote side of the advance and the invoice
  listing. The loop shows the calls of the advance, the warning it prints when the advance
  raised, and the calls of the invoice pass. The result is \<open>None\<close> when an advance does
  not come to an end.
\<close>

record month_world =
  mw_module :: stripe_module
  mw_listing :: "py_error + invoice list"

datatype month_event =
    ClockCalls "call list"
  | AdvanceWarning int py_error
  | InvoiceCalls "invoice_call list"
  | Cancellation bool

fun invoice_passes :: "month_event list \<Rightarrow> nat" where
  "invoice_passes [] = 0"
| "invoice_passes (InvoiceCalls cs # evs) = Suc (invoice_passes evs)"
| "invoice_passes (ev # evs) = invoice_passes evs"

fun active_months ::
  "nat \<Rightarrow> nat \<Rightarrow> (nat \<Rightarrow> month_world) \<Rightarrow> string \<Rightarrow> int \<Rightarrow> nat \<Rightarrow> summary
   \<Rightarrow> (month_event list \<times> summary) option" where
  "active_months 0 m2 world clock_id start_ts month s = Some ([], s)"
| "active_months (Suc n) m2 world clock_id start_ts month s =
     (let current_ts = start_ts + 2592000 * int (month + m2);
          (cs, r) = advance_test_clock (mw_module (world m2)) clock_id current_ts
      in case r of
           None \<Rightarrow> None
         | Some res \<Rightarrow>
             (let warned = (case res of Inl e \<Rightarrow> [AdvanceWarning current_ts e] | Inr tc \<Rightarrow> []);
                  (ics, s1) = pay_invoices_active (mw_listing (world m2)) s
              in case active_months n (Suc m2) world clock_id start_ts month s1 of
                   None \<Rightarrow> None
                 | Some (evs, s') \<Rightarrow>
                     Some (ClockCalls cs # warned @ InvoiceCalls ics # evs, s')))"

text \<open>The warnings a month loop has printed, each with the time it names.\<close>

fun warnings :: "month_event list \<Rightarrow> (int \<times> py_error) list" where
  "warnings [] = []"
| "warnings (AdvanceWarning t e # evs) = (t, e) # warnings evs"
| "warnings (ev # evs) = warnings evs"

text \<open>
  Lines 116-135:
  \<^verbatim>\<open>
  def cancel_subscription_retry(sub_id, max_retries=20):
      backoff = 0.5
      for attempt in range(max_retries):
          try:
              stripe.Subscription.delete(sub_id)
              return True
          except stripe.error.RateLimitError:
              time.sleep(backoff)
              ...
              continue
          except Exception:
              try:
                  stripe.Subscription.modify(sub_id, cancel_at_period_end=True)
                  return True
              except Exception:
                  time.sleep(backoff)
                  ...
                  continue
      return False
  \<close>
  The remote side of one attempt is the outcome of \<^verbatim>\<open>delete\<close> and, when it is reached,
  of \<^verbatim>\<open>modify\<close>. Every exception is caught, so the function returns a truth value.
\<close>

record cancel_attempt =
  ca_delete :: "py_error option"
  ca_modify :: "py_error option"

fun cancel_attempts :: "nat \<Rightarrow> nat \<Rightarrow> (nat \<Rightarrow> cancel_attempt) \<Rightarrow> bool" where
  "cancel_attempts 0 attempt remote = False"
| "cancel_attempts (Suc n) attempt remote =
     (case ca_delete (remote attempt) of
        None \<Rightarrow> True
      | Some e \<Rightarrow>
          if e = RateLimitError then cancel_attempts n (Suc attempt) remote
          else
            (case ca_modify (remote attempt) of
               None \<Rightarrow> True
             | Some e' \<Rightarrow> cancel_attempts n (Suc attempt) remote))"

definition cancel_subscription_retry :: "(nat \<Rightarrow> cancel_attempt) \<Rightarrow> bool" where
  "cancel_subscription_retry remote = cancel_attempts 20 0 remote"

text \<open>
  Lines 396-427, the canceled flow: the same advance inside the same \<^verbatim>\<open>try\<close>, the invoice
  pass of the canceled flow, and then
  \<^verbatim>\<open>
      if (m2 + 1) >= cancel_after:
          canceled = cancel_subscription_retry(sub.id)
          if canceled:
              pass
          break
  \<close>
  \<^verbatim>\<open>cancel_after\<close> is \<^verbatim>\<open>random.randint(1, max(1, months_remaining))\<close>, an argument here.
\<close>

fun canceled_months ::
  "nat \<Rightarrow> nat \<Rightarrow> (nat \<Rightarrow> month_world) \<Rightarrow> string \<Rightarrow> int \<Rightarrow> nat \<Rightarrow> int
   \<Rightarrow> (nat \<Rightarrow> cancel_attempt) \<Rightarrow> summary \<Rightarrow> (month_event list \<times> summary) option" where
  "canceled_months 0 m2 world clock_id start_ts month cancel_after remote s = Some ([], s)"
| "canceled_months (Suc n) m2 world clock_id start_ts month cancel_after remote s =
     (let current_ts = start_ts + 2592000 * int (month + m2);
          (cs, r) = advance_test_clock (mw_module (world m2)) clock_id current_ts
      in case r of
           None \<Rightarrow> None
         | Some res \<Rightarrow>
             (let warned = (case res of Inl e \<Rightarrow> [AdvanceWarning current_ts e] | Inr tc \<Rightarrow> []);
                  (ics, s1) = pay_invoices_canceled (mw_listing (world m2)) s
              in if int (m2 + 1) \<ge> cancel_after then
                   Some (ClockCalls cs # warned
                           @ [InvoiceCalls ics, Cancellation (cancel_subscription_retry remote)],
                         s1)
                 else
                   (case canceled_months n (Suc m2) world clock_id start_ts month cancel_after
                           remote s1 of
                      None \<Rightarrow> None
                    | Some (evs, s') \<Rightarrow>
                        Some (ClockCalls cs # warned @ InvoiceCalls ics # evs, s'))))"

text \<open>A month in which every advance request is throttled and one open invoice is paid.\<close>

definition throttled_month :: "nat \<Rightarrow> month_world" where
  "throttled_month m2 = \<lparr>mw_module = throttled_module, mw_listing = Inr [open_invoice]\<rparr>"

text \<open>
  A remote that completes the advance at once, at the time \<open>t\<close>; months of which the
  first has every advance request throttled and the later ones such a remote; and a remote
  that cancels at the first \<^verbatim>\<open>delete\<close>.
\<close>

definition settled_module :: "int \<Rightarrow> stripe_module" where
  "settled_module t =
     \<lparr>first_retrieve = Inr (stripe_clock 100 ''ready''),
      advance_outcome = (\<lambda>n. None),
      polls = [(Inr (stripe_clock t ''ready''), False)]\<rparr>"

definition throttled_first :: "nat \<Rightarrow> month_world" where
  "throttled_first m2 =
     \<lparr>mw_module = (if m2 = 0 then throttled_module
                   else settled_module (1735689600 + 2592000 * int m2)),
      mw_listing = Inr [open_invoice]\<rparr>"

definition cancels_at_once :: "nat \<Rightarrow> cancel_attempt" where
  "cancels_at_once attempt = \<lparr>ca_delete = None, ca_modify = None\<rparr>"

section \<open>ScenarioOrchestrator: \<open>run_linger\<close>, \<open>run_recover\<close> and the batch loop of \<open>main\<close>
  (generate\_past\_due\_new.py)\<close>

text \<open>
  A statement of the scenario functions shows the notices of the \<^verbatim>\<open>advance_clock\<close> calls
  it makes and ends by returning (\<open>Some (Inr ())\<close>), by raising (\<open>Some (Inl e)\<close>) or not
  at all (\<open>None\<close>). \<open>and_then a b\<close> is \<open>a\<close> followed by \<open>b\<close> with no \<^verbatim>\<open>try\<close> around
  them: \<open>b\<close> runs only when \<open>a\<close> has returned.
\<close>

type_synonym run = "notice list \<times> (py_error + unit) option"

definition and_then :: "run \<Rightarrow> run \<Rightarrow> run" where
  "and_then a b =
     (case snd a of
        Some (Inr u) \<Rightarrow> (fst a @ fst b, snd b)
      | Some (Inl e) \<Rightarrow> a
      | None \<Rightarrow> a)"

definition returned :: "py_error option \<Rightarrow> run" where
  "returned r = ([], Some (case r of None \<Rightarrow> Inr () | Some e \<Rightarrow> Inl e))"

text \<open>
  How a sequence of statements with no \<^verbatim>\<open>try\<close> around any of them ends, from how each
  would end: as the first that does not return, and by returning when all do.
\<close>

fun first_unreturned :: "(py_error + unit) option list \<Rightarrow> (py_error + unit) option" where
  "first_unreturned [] = Some (Inr ())"
| "first_unreturned (r # rs) = (if r = Some (Inr ()) then first_unreturned rs else r)"

text \<open>
  The remote side of one billing cycle of a scenario: the \<^verbatim>\<open>TestClock.retrieve\<close> that
  reads \<^verbatim>\<open>cur\<close>, the \<^verbatim>\<open>advance_clock\<close> call, \<^verbatim>\<open>retrieve_triplet\<close>, and the iterations of
  \<^verbatim>\<open>advance_through_retries\<close>.
\<close>

record cycle_world =
  cy_clock :: "py_error + test_clock"
  cy_advance :: advance_world
  cy_triplet :: "py_error option"
  cy_retries :: "nat \<Rightarrow> round_world"

text \<open>
  \<^verbatim>\<open>MONTH = 30 * 24 * 3600\<close>. The three statements
  \<^verbatim>\<open>
  cur = stripe.test_helpers.TestClock.retrieve(tc.id).frozen_time
  next_cycle = next_cycle_after(billing_anchor, cycle_index, cur, MONTH)
  advance_clock(tc.id, next_cycle)
  \<close>
\<close>

definition move_to_cycle :: "cycle_world \<Rightarrow> string \<Rightarrow> int \<Rightarrow> int \<Rightarrow> run" where
  "move_to_cycle cw tc_id billing_anchor cycle_index =
     (case cy_clock cw of
        Inl e \<Rightarrow> ([], Some (Inl e))
      | Inr c \<Rightarrow>
          (case next_cycle_after billing_anchor cycle_index (tc_frozen_time c) (30 * 24 * 3600) of
             Inl e \<Rightarrow> ([], Some (Inl e))
           | Inr next_cycle \<Rightarrow> advance_clock (cy_advance cw) tc_id next_cycle))"

text \<open>\<^verbatim>\<open>advance_through_retries(tc.id, sub_id)\<close>, with the defaults 60 and 10.\<close>

definition through_retries :: "cycle_world \<Rightarrow> string \<Rightarrow> string \<Rightarrow> run" where
  "through_retries cw tc_id sub_id =
     snd (advance_through_retries (cy_retries cw) tc_id sub_id 60 10)"

text \<open>
  The loops of the scenarios move one cycle per iteration. \<open>cycles n j idx\<close> runs \<open>n\<close>
  iterations, the first with the remote side \<open>ws j\<close> and the cycle index \<open>idx\<close>; after
  the advance an iteration calls \<^verbatim>\<open>retrieve_triplet\<close> (the paid months) or
  \<^verbatim>\<open>advance_through_retries\<close> (the failing months).
\<close>

datatype follow_up = Triplet | Retries

definition cycle_step ::
  "cycle_world \<Rightarrow> follow_up \<Rightarrow> string \<Rightarrow> string \<Rightarrow> int \<Rightarrow> int \<Rightarrow> run" where
  "cycle_step cw f tc_id sub_id billing_anchor cycle_index =
     and_then (move_to_cycle cw tc_id billing_anchor cycle_index)
       (case f of
          Triplet \<Rightarrow> returned (cy_triplet cw)
        | Retries \<Rightarrow> through_retries cw tc_id sub_id)"

fun cycles ::
  "nat \<Rightarrow> nat \<Rightarrow> int \<Rightarrow> (nat \<Rightarrow> cycle_world) \<Rightarrow> follow_up \<Rightarrow> string \<Rightarrow> string \<Rightarrow> int \<Rightarrow> run" where
  "cycles 0 j idx ws f tc_id sub_id billing_anchor = ([], Some (Inr ()))"
| "cycles (Suc n) j idx ws f tc_id sub_id billing_anchor =
     and_then (cycle_step (ws j) f tc_id sub_id billing_anchor idx)
       (cycles n (Suc j) (idx + 1) ws f tc_id sub_id billing_anchor)"

text \<open>
  The closing auto-advance, the only clock advance of the scenarios inside a \<^verbatim>\<open>try\<close>:
  \<^verbatim>\<open>
  if auto_advance:
      try:
          cur = stripe.test_helpers.TestClock.retrieve(tc.id).frozen_time
          advance_clock(tc.id, cur + extra)
      except Exception as e:
          print(f"[Warning] Could not auto-advance test clock {tc.id}: {e}")
  \<close>
\<close>

definition auto_advance_step :: "cycle_world \<Rightarrow> bool \<Rightarrow> string \<Rightarrow> run" where
  "auto_advance_step cw auto_advance tc_id =
     (if auto_advance then
        (case cy_clock cw of
           Inl e \<Rightarrow> ([], Some (Inr ()))
         | Inr c \<Rightarrow>
             (case advance_clock (cy_advance cw) tc_id (tc_frozen_time c + 2 * 24 * 3600) of
                (out, None) \<Rightarrow> (out, None)
              | (out, Some r) \<Rightarrow> (out, Some (Inr ()))))
      else ([], Some (Inr ())))"

text \<open>
  The remote side of one scenario. \<open>sw_setup\<close> is the outcome of the calls that create
  the clock, the customer, the payment method and the subscription (\<open>Some e\<close> when one of
  them raises \<open>e\<close>); \<open>sw_anchor\<close> is the subscription's \<^verbatim>\<open>billing_cycle_anchor\<close>;
  \<open>sw_switch\<close> is \<^verbatim>\<open>create_payment_method(FAIL_CARD_DECLINE)\<close>
  (\<^verbatim>\<open>attach_and_set_default_pm\<close> catches what its calls raise). The other fields are
  the cycles in the order the scenario reaches them. The identifiers of the clock and the
  subscription, which the creating calls return, are arguments of the model.
\<close>

record scenario_world =
  sw_setup :: "py_error option"
  sw_anchor :: int
  sw_first :: cycle_world
  sw_paid :: "nat \<Rightarrow> cycle_world"
  sw_switch :: "py_error option"
  sw_fail :: cycle_world
  sw_past_due :: "nat \<Rightarrow> cycle_world"
  sw_recovery :: cycle_world
  sw_later :: "nat \<Rightarrow> cycle_world"
  sw_auto :: cycle_world

text \<open>
  \<^verbatim>\<open>run_linger(email, price_id, paid_months, total_months, auto_advance)\<close>, lines 590-666.
  \<^verbatim>\<open>for i in range(1, paid_months)\<close> has \<open>nat (paid_months - 1)\<close> iterations; the loop
  \<^verbatim>\<open>while months_done < int(total_months)\<close> starts from \<open>paid_months + 1\<close> and has
  \<open>nat (total_months - (paid_months + 1))\<close> iterations, each of which first adds one to
  \<^verbatim>\<open>cycle_index\<close>.
\<close>

definition run_linger ::
  "scenario_world \<Rightarrow> string \<Rightarrow> string \<Rightarrow> int \<Rightarrow> int \<Rightarrow> bool \<Rightarrow> run" where
  "run_linger w tc_id sub_id paid_months total_months auto_advance =
     and_then (returned (sw_setup w))
    (and_then (advance_clock (cy_advance (sw_first w)) tc_id (sw_anchor w + 60))
    (and_then (returned (cy_triplet (sw_first w)))
    (and_then (cycles (nat (paid_months - 1)) 0 1 (sw_paid w) Triplet tc_id sub_id (sw_anchor w))
    (and_then (returned (sw_switch w))
    (and_then (move_to_cycle (sw_fail w) tc_id (sw_anchor w) paid_months)
    (and_then (returned (cy_triplet (sw_fail w)))
    (and_then (through_retries (sw_fail w) tc_id sub_id)
    (and_then (cycles (nat (total_months - (paid_months + 1))) 0 (paid_months + 1)
                 (sw_past_due w) Retries tc_id sub_id (sw_anchor w))
              (auto_advance_step (sw_auto w) auto_advance tc_id)))))))))"

text \<open>
  \<^verbatim>\<open>run_recover(email, price_id, paid_months, past_due_months, total_months, auto_advance)\<close>,
  lines 435-588. \<^verbatim>\<open>past_due_months\<close> is set to 1 when it is not positive;
  \<^verbatim>\<open>for j in range(past_due_months - 1)\<close> adds one to \<^verbatim>\<open>cycle_index\<close> before each
  advance; the cycle of the recovery is computed before the payment method is restored
  and advanced to after it; the later paid months run while
  \<^verbatim>\<open>months_done < int(total_months)\<close>, starting from \<open>paid_months + past_due_months + 1\<close>.
  The block that finalizes and pays the open invoices before the recovery advance is
  inside \<^verbatim>\<open>try: ... except Exception: pass\<close> and calls no clock operation; it is left out
  of the notices.
\<close>

definition run_recover ::
  "scenario_world \<Rightarrow> string \<Rightarrow> string \<Rightarrow> int \<Rightarrow> int \<Rightarrow> int \<Rightarrow> bool \<Rightarrow> run" where
  "run_recover w tc_id sub_id paid_months past_due_months total_months auto_advance =
     (let pd = (if past_due_months \<le> 0 then 1 else past_due_months);
          lingering = nat (pd - 1);
          recovery_index = paid_months + int lingering + 1
      in
     and_then (returned (sw_setup w))
    (and_then (advance_clock (cy_advance (sw_first w)) tc_id (sw_anchor w + 60))
    (and_then (returned (cy_triplet (sw_first w)))
    (and_then (cycles (nat (paid_months - 1)) 0 1 (sw_paid w) Triplet tc_id sub_id (sw_anchor w))
    (and_then (returned (sw_switch w))
    (and_then (move_to_cycle (sw_fail w) tc_id (sw_anchor w) paid_months)
    (and_then (returned (cy_triplet (sw_fail w)))
    (and_then (through_retries (sw_fail w) tc_id sub_id)
    (and_then (cycles lingering 0 (paid_months + 1) (sw_past_due w) Retries tc_id sub_id
                 (sw_anchor w))
    (and_then (move_to_cycle (sw_recovery w) tc_id (sw_anchor w) recovery_index)
    (and_then (returned (cy_triplet (sw_recovery w)))
    (and_then (cycles (nat (total_months - (paid_months + pd + 1))) 0 (recovery_index + 1)
                 (sw_later w) Triplet tc_id sub_id (sw_anchor w))
              (auto_advance_step (sw_auto w) auto_advance tc_id)))))))))))))"

text \<open>
  The batch loop of \<^verbatim>\<open>main\<close>, lines 704-726:
  \<^verbatim>\<open>
  for i in range(1, args.count + 1):
      paid = random.randint(args.min_paid, args.max_paid)
      ...
      if args.scenario == 'recover':
          ...
          res = run_recover(email_i, price_id, paid_months=paid, past_due_months=past_due,
                            total_months=args.total_months)
      else:
          res = run_linger(email_i, price_id, paid_months=paid, total_months=args.total_months)
      result = res
      time.sleep(0.2)
  \<close>
  Nothing in the loop or around it catches an exception. An entity of the batch is the
  remote side of its scenario, the identifiers the remote gives it and the months sampled
  for it. The result is the number of entities whose scenario was begun, the notices,
  and how the loop ended.
\<close>

datatype scenario = Recover | Linger

record entity =
  en_world :: scenario_world
  en_clock :: string
  en_subscription :: string
  en_paid :: int
  en_past_due :: int

definition run_scenario :: "scenario \<Rightarrow> int \<Rightarrow> entity \<Rightarrow> run" where
  "run_scenario scen total_months en =
     (case scen of
        Recover \<Rightarrow>
          run_recover (en_world en) (en_clock en) (en_subscription en) (en_paid en)
            (en_past_due en) total_months True
      | Linger \<Rightarrow>
          run_linger (en_world en) (en_clock en) (en_subscription en) (en_paid en)
            total_months True)"

fun batch :: "scenario \<Rightarrow> int \<Rightarrow> entity list \<Rightarrow> nat \<times> run" where
  "batch scen total_months [] = (0, [], Some (Inr ()))"
| "batch scen total_months (en # ens) =
     (case run_scenario scen total_months en of
        (out, Some (Inr u)) \<Rightarrow>
          (let (k, out', r) = batch scen total_months ens in (Suc k, out @ out', r))
      | (out, Some (Inl e)) \<Rightarrow> (1, out, Some (Inl e))
      | (out, None) \<Rightarrow> (1, out, None))"

text \<open>
  Remote sides for the examples: a cycle in which everything succeeds (the invoice is
  found paid in the third retry round), a scenario made of such cycles, and the same
  scenario with a first advance whose polling runs out of its time budget.
\<close>

definition calm_cycle :: cycle_world where
  "calm_cycle =
     \<lparr>cy_clock = Inr \<lparr>tc_frozen_time = 100, tc_status = ''ready''\<rparr>,
      cy_advance = settling_world,
      cy_triplet = None,
      cy_retries = paid_in_third\<rparr>"

definition calm_world :: scenario_world where
  "calm_world =
     \<lparr>sw_setup = None, sw_anchor = 400, sw_first = calm_cycle, sw_paid = (\<lambda>i. calm_cycle),
      sw_switch = None, sw_fail = calm_cycle, sw_past_due = (\<lambda>j. calm_cycle),
      sw_recovery = calm_cycle, sw_later = (\<lambda>j. calm_cycle), sw_auto = calm_cycle\<rparr>"

definition never_ready :: advance_world where
  "never_ready =
     \<lparr>aw_first = Inr \<lparr>tc_frozen_time = 100, tc_status = ''ready''\<rparr>,
      aw_advance = None,
      aw_polls = [(Inr \<lparr>tc_frozen_time = 100, tc_status = ''advancing''\<rparr>, True)],
      aw_last = Inr \<lparr>tc_frozen_time = 100, tc_status = ''advancing''\<rparr>\<rparr>"

definition timeout_world :: scenario_world where
  "timeout_world = calm_world\<lparr>sw_first := calm_cycle\<lparr>cy_advance := never_ready\<rparr>\<rparr>"

text \<open>
  The calm scenario with a polling that runs out of its budget in the second of the later
  paid months, and with one in the second retry round of the failing month.
\<close>

definition late_timeout_world :: scenario_world where
  "late_timeout_world =
     calm_world\<lparr>sw_later := (\<lambda>j. if j = 1 then calm_cycle\<lparr>cy_advance := never_ready\<rparr>
                                   else calm_cycle)\<rparr>"

definition retry_timeout_world :: scenario_world where
  "retry_timeout_world =
     calm_world\<lparr>sw_fail := calm_cycle\<lparr>cy_retries :=
       (\<lambda>i. if i = 1 then (never_paid i)\<lparr>rw_advance := never_ready\<rparr> else never_paid i)\<rparr>\<rparr>"

definition calm_entity :: "string \<Rightarrow> entity" where
  "calm_entity tc_id =
     \<lparr>en_world = calm_world, en_clock = tc_id, en_subscription = ''sub_1'',
      en_paid = 1, en_past_due = 1\<rparr>"

definition timeout_entity :: "string \<Rightarrow> entity" where
  "timeout_entity tc_id =
     \<lparr>en_world = timeout_world, en_clock = tc_id, en_subscription = ''sub_2'',
      en_paid = 1, en_past_due = 1\<rparr>"

section \<open>Properties of \<open>next_cycle_after\<close>\<close>

lemma div_plus_one_exceeds:
  fixes e m :: int
  assumes "0 < m"
  shows "e < (e div m + 1) * m"
proof -
  have a: "m * (e div m) + e mod m = e" by (rule mult_div_mod_eq)
  have b: "e mod m < m" using assms by simp
  have "(e div m + 1) * m = m * (e div m) + m" by (simp add: algebra_simps)
  with a b show ?thesis by linarith
qed

lemma next_cycle_after_value:
  assumes "0 \<le> index" and "0 < interval"
  shows "next_cycle_after anchor index current interval =
           Inr (nextCycleAfter_spec anchor index current interval)"
proof (cases "anchor + index * interval + 60 > current")
  case True
  then show ?thesis by (simp add: next_cycle_after_def nextCycleAfter_spec_def)
next
  case False
  then have le: "index * interval \<le> current - anchor - 60" by simp
  have "0 \<le> index * interval" using assms by simp
  with le have nonneg: "\<not> current - anchor - 60 < 0" by linarith
  have m0: "interval \<noteq> 0" using assms by simp
  show ?thesis
    using False nonneg m0
    by (simp add: next_cycle_after_def nextCycleAfter_spec_def Let_def max_def)
qed

text \<open>
  C3. For every anchor, every index \<open>\<ge> 0\<close>, every interval \<open>> 0\<close> and every current,
  \<open>next_cycle_after\<close> returns a value strictly greater than current; the value has the form
  \<open>anchor + k * interval + 60\<close>, and every cycle index \<open>k\<close> it can be read as is at least
  the requested index.
\<close>

theorem next_cycle_after_monotonic:
  assumes "0 \<le> index" and "0 < interval"
  shows "\<exists>r. next_cycle_after anchor index current interval = Inr r
           \<and> current < r
           \<and> (\<exists>k. r = anchor + k * interval + 60)
           \<and> (\<forall>k. r = anchor + k * interval + 60 \<longrightarrow> index \<le> k)"
proof -
  let ?e = "current - anchor - 60"
  let ?r = "nextCycleAfter_spec anchor index current interval"
  have val: "next_cycle_after anchor index current interval = Inr ?r"
    using assms by (rule next_cycle_after_value)
  have shape: "\<exists>k. index \<le> k \<and> current < anchor + k * interval + 60
                 \<and> ?r = anchor + k * interval + 60"
  proof (cases "anchor + index * interval + 60 > current")
    case True
    then have "?r = anchor + index * interval + 60"
      by (simp add: nextCycleAfter_spec_def)
    with True show ?thesis by (intro exI [of _ index]) simp
  next
    case False
    let ?k = "max index (?e div interval + 1)"
    have r: "?r = anchor + ?k * interval + 60"
      using False by (simp add: nextCycleAfter_spec_def)
    have "?e < (?e div interval + 1) * interval"
      using assms(2) by (rule div_plus_one_exceeds)
    also have "\<dots> \<le> ?k * interval"
      using assms(2) by (intro mult_right_mono) auto
    finally have "current < anchor + ?k * interval + 60" by simp
    with r show ?thesis by (intro exI [of _ ?k]) simp
  qed
  then obtain k where k: "index \<le> k" "current < anchor + k * interval + 60"
    "?r = anchor + k * interval + 60" by blast
  have uniq: "index \<le> k'" if "?r = anchor + k' * interval + 60" for k'
  proof -
    from that k(3) have "k' * interval = k * interval" by linarith
    moreover have "interval \<noteq> 0" using assms(2) by simp
    ultimately have "k' = k" by simp
    with k(1) show ?thesis by simp
  qed
  show ?thesis
    using val k uniq by (intro exI [of _ ?r]) auto
qed

theorem next_cycle_after_monotonic_witness:
  "\<exists>r. next_cycle_after 1735689600 3 1750000000 2592000 = Inr r
     \<and> 1750000000 < r
     \<and> (\<exists>k. r = 1735689600 + k * 2592000 + 60)"
  using next_cycle_after_monotonic [of 3 2592000 1735689600 1750000000] by auto

text \<open>
  C4. On the cycle indices and intervals of the schedule (index \<open>\<ge> 0\<close>, interval \<open>> 0\<close>:
  the callers pass \<^verbatim>\<open>range(1, paid_months)\<close>, the months counted so far, and the constant
  \<^verbatim>\<open>MONTH\<close>), \<open>next_cycle_after\<close> equals \<open>anchor + index * interval + 60\<close> whenever that
  value exceeds current, and otherwise \<open>anchor + k * interval + 60\<close> with
  \<open>k = max(index, floor((current - anchor - 60) / interval) + 1)\<close>; for
  \<open>anchor = 1735689600\<close>, \<open>interval = 2592000\<close>, \<open>index = 3\<close>, \<open>current = 1735689600\<close>
  it returns \<open>1735689600 + 3 * 2592000 + 60\<close>.
\<close>

theorem next_cycle_after_formula:
  assumes "0 \<le> index" and "0 < interval"
  shows "next_cycle_after anchor index current interval =
           Inr (if anchor + index * interval + 60 > current
                then anchor + index * interval + 60
                else anchor + max index ((current - anchor - 60) div interval + 1) * interval + 60)
         \<and> next_cycle_after 1735689600 3 1735689600 2592000 = Inr (1735689600 + 3 * 2592000 + 60)"
proof -
  have "next_cycle_after anchor index current interval =
          Inr (nextCycleAfter_spec anchor index current interval)"
    using assms by (rule next_cycle_after_value)
  moreover have "next_cycle_after 1735689600 3 1735689600 2592000 = Inr (1735689600 + 3 * 2592000 + 60)"
    by (simp add: next_cycle_after_def)
  ultimately show ?thesis by (simp add: nextCycleAfter_spec_def)
qed

theorem next_cycle_after_formula_witness:
  "next_cycle_after 1735689600 3 1744329660 2592000 = Inr 1746057660"
  using next_cycle_after_formula [of 3 2592000 1735689600 1744329660] by simp

section \<open>Properties of the clock advance\<close>

lemma backoff_step:
  fixes x :: rat
  shows "min (min x 5 * (3 / 2)) 5 = min (x * (3 / 2)) 5"
  by (auto simp: min_def)

lemma backoff_closed:
  "min (min (1 / 2 * (3 / 2) ^ a) 5 * (3 / 2)) (5::rat) = min (1 / 2 * (3 / 2) ^ Suc a) 5"
  by (simp add: backoff_step)

lemma advance_attempts_char:
  "b = min (1 / 2 * (3 / 2) ^ a) 5 \<Longrightarrow>
   \<exists>k\<le>n. (\<forall>i<k. adv (a + i) \<noteq> None)
     \<and> (k < n \<longrightarrow> adv (a + k) = None)
     \<and> advance_attempts n a b clock_id ft adv =
         (k < n, concat (map (failed_attempt clock_id ft) [a..<a + k])
                  @ (if k < n then [Advance clock_id ft] else []))"
proof (induction n arbitrary: a b)
  case 0
  then show ?case by simp
next
  case (Suc n)
  show ?case
  proof (cases "adv a")
    case None
    then show ?thesis by (intro exI [of _ 0]) simp
  next
    case (Some e)
    have b': "min (b * (3 / 2)) 5 = min (1 / 2 * (3 / 2) ^ Suc a) 5"
      unfolding Suc.prems by (rule backoff_closed)
    define b2 where "b2 = min (b * (3 / 2)) 5"
    from Suc.IH [OF b'] obtain k where k: "k \<le> n" "\<forall>i<k. adv (Suc a + i) \<noteq> None"
      "k < n \<longrightarrow> adv (Suc a + k) = None"
      and run: "advance_attempts n (Suc a) b2 clock_id ft adv =
         (k < n, concat (map (failed_attempt clock_id ft) [Suc a..<Suc a + k])
                  @ (if k < n then [Advance clock_id ft] else []))"
      unfolding b2_def by blast
    define xs where "xs = [Suc a..<Suc a + k]"
    have all: "\<forall>i<Suc k. adv (a + i) \<noteq> None"
    proof (intro allI impI)
      fix i assume "i < Suc k"
      then show "adv (a + i) \<noteq> None"
        using Some k(2) by (cases i) auto
    qed
    have upt: "[a..<a + Suc k] = a # xs"
      unfolding xs_def by (simp add: upt_conv_Cons)
    have hd: "failed_attempt clock_id ft a = [Advance clock_id ft, Sleep b]"
      unfolding Suc.prems failed_attempt_def by simp
    have "advance_attempts (Suc n) a b clock_id ft adv =
            (k < n, failed_attempt clock_id ft a @ concat (map (failed_attempt clock_id ft) xs)
                     @ (if k < n then [Advance clock_id ft] else []))"
      using Some run unfolding xs_def b2_def hd by simp
    then have "advance_attempts (Suc n) a b clock_id ft adv =
            (Suc k < Suc n, concat (map (failed_attempt clock_id ft) (a # xs))
                     @ (if Suc k < Suc n then [Advance clock_id ft] else []))"
      by simp
    then have "advance_attempts (Suc n) a b clock_id ft adv =
            (Suc k < Suc n, concat (map (failed_attempt clock_id ft) [a..<a + Suc k])
                     @ (if Suc k < Suc n then [Advance clock_id ft] else []))"
      unfolding upt .
    moreover have "Suc k \<le> Suc n" using k(1) by simp
    moreover have "Suc k < Suc n \<longrightarrow> adv (a + Suc k) = None" using k(3) by simp
    ultimately show ?thesis using all by blast
  qed
qed

lemma poll_until_ready_success:
  "poll_until_ready clock_id ft ps = Some (Inr tc2) \<Longrightarrow> ready_at ft tc2"
  by (induction ps) (auto split: sum.splits if_splits)

lemma poll_until_ready_error:
  "poll_until_ready clock_id ft ps = Some (Inl e) \<Longrightarrow> e = TimeoutError clock_id"
  by (induction ps) (auto split: sum.splits if_splits)

lemma wait_until_testclock_ready_success:
  "wait_until_testclock_ready i ps = Some (Inr tc) \<Longrightarrow> tc_status tc = ''ready''"
  by (induction ps) (auto split: sum.splits if_splits)

lemma requests_failed:
  "requests (concat (map (failed_attempt clock_id ft) xs) @ ys) = replicate (length xs) ft @ requests ys"
  by (induction xs) (auto simp: failed_attempt_def)

lemma requests_failed_only:
  "requests (concat (map (failed_attempt clock_id ft) xs)) = replicate (length xs) ft"
  using requests_failed [of clock_id ft xs "[]"] by simp

lemma advance_test_clock_char:
  "\<exists>k\<le>8. (\<forall>i<k. advance_outcome m i \<noteq> None)
     \<and> (k < 8 \<longrightarrow> advance_outcome m k = None)
     \<and> advance_test_clock m clock_id frozen_time =
         (concat (map (failed_attempt clock_id (effective_frozen_time (observed_frozen_time m) frozen_time)) [0..<k])
            @ (if k < 8 then [Advance clock_id (effective_frozen_time (observed_frozen_time m) frozen_time)] else []),
          if k < 8
          then poll_until_ready clock_id (effective_frozen_time (observed_frozen_time m) frozen_time) (polls m)
          else Some (Inl (RuntimeError clock_id 8)))"
proof -
  let ?ft = "effective_frozen_time (observed_frozen_time m) frozen_time"
  have "1 / 2 = min (1 / 2 * (3 / 2) ^ 0) (5::rat)" by simp
  from advance_attempts_char [OF this, of 8 "advance_outcome m" clock_id ?ft]
  obtain k where k: "k \<le> 8" "\<forall>i<k. advance_outcome m i \<noteq> None"
    "k < 8 \<longrightarrow> advance_outcome m k = None"
    "advance_attempts 8 0 (1 / 2) clock_id ?ft (advance_outcome m) =
       (k < 8, concat (map (failed_attempt clock_id ?ft) [0..<k])
                 @ (if k < 8 then [Advance clock_id ?ft] else []))"
    by auto
  have "advance_test_clock m clock_id frozen_time =
         (concat (map (failed_attempt clock_id ?ft) [0..<k])
            @ (if k < 8 then [Advance clock_id ?ft] else []),
          if k < 8 then poll_until_ready clock_id ?ft (polls m)
          else Some (Inl (RuntimeError clock_id 8)))"
    unfolding advance_test_clock_def Let_def k(4) by simp
  with k(1,2,3) show ?thesis by blast
qed

lemma advance_test_clock_requests:
  "set (requests (fst (advance_test_clock m clock_id frozen_time))) =
     {effective_frozen_time (observed_frozen_time m) frozen_time}"
proof -
  obtain k where "k \<le> 8" and
    "advance_test_clock m clock_id frozen_time =
         (concat (map (failed_attempt clock_id (effective_frozen_time (observed_frozen_time m) frozen_time)) [0..<k])
            @ (if k < 8 then [Advance clock_id (effective_frozen_time (observed_frozen_time m) frozen_time)] else []),
          if k < 8
          then poll_until_ready clock_id (effective_frozen_time (observed_frozen_time m) frozen_time) (polls m)
          else Some (Inl (RuntimeError clock_id 8)))"
    using advance_test_clock_char [of m clock_id frozen_time] by blast
  then show ?thesis
    by (cases "k < 8") (auto simp: requests_failed requests_failed_only)
qed

lemma advance_test_clock_success:
  assumes "snd (advance_test_clock m clock_id frozen_time) = Some (Inr tc2)"
  shows "ready_at (effective_frozen_time (observed_frozen_time m) frozen_time) tc2"
proof -
  obtain k where "k \<le> 8" and
    "advance_test_clock m clock_id frozen_time =
         (concat (map (failed_attempt clock_id (effective_frozen_time (observed_frozen_time m) frozen_time)) [0..<k])
            @ (if k < 8 then [Advance clock_id (effective_frozen_time (observed_frozen_time m) frozen_time)] else []),
          if k < 8
          then poll_until_ready clock_id (effective_frozen_time (observed_frozen_time m) frozen_time) (polls m)
          else Some (Inl (RuntimeError clock_id 8)))"
    using advance_test_clock_char [of m clock_id frozen_time] by blast
  with assms show ?thesis
    by (cases "k < 8") (auto dest: poll_until_ready_success)
qed

lemma effective_frozen_time_bump:
  "frozen_time \<le> cur \<Longrightarrow>
   effective_frozen_time (Some cur) frozen_time = cur + 1
   \<and> effective_frozen_time (Some cur) (cur + 1) = cur + 1"
  by (simp add: effective_frozen_time_def)

lemma advance_test_clock_depends_on_target:
  assumes "effective_frozen_time (observed_frozen_time m) t =
           effective_frozen_time (observed_frozen_time m) t'"
  shows "advance_test_clock m clock_id t = advance_test_clock m clock_id t'"
  using assms by (simp add: advance_test_clock_def)

lemma advance_test_clock_failure:
  assumes "snd (advance_test_clock m clock_id frozen_time) = Some (Inl e)"
  shows "(e = RuntimeError clock_id 8 \<and> (\<forall>i<8. advance_outcome m i \<noteq> None))
         \<or> e = TimeoutError clock_id"
proof -
  obtain k where "k \<le> 8" and "\<forall>i<k. advance_outcome m i \<noteq> None" and
    "advance_test_clock m clock_id frozen_time =
         (concat (map (failed_attempt clock_id (effective_frozen_time (observed_frozen_time m) frozen_time)) [0..<k])
            @ (if k < 8 then [Advance clock_id (effective_frozen_time (observed_frozen_time m) frozen_time)] else []),
          if k < 8
          then poll_until_ready clock_id (effective_frozen_time (observed_frozen_time m) frozen_time) (polls m)
          else Some (Inl (RuntimeError clock_id 8)))"
    using advance_test_clock_char [of m clock_id frozen_time] by blast
  with assms show ?thesis
    by (cases "k < 8") (auto dest: poll_until_ready_error)
qed

lemma advance_clock_bump:
  assumes "aw_first w = Inr c" and "new_frozen_time \<le> tc_frozen_time c"
  shows "fst (advance_clock w test_clock_id new_frozen_time) =
           Warning new_frozen_time (tc_frozen_time c) (tc_frozen_time c + 1)
             # fst (advance_clock w test_clock_id (tc_frozen_time c + 1))"
    and "snd (advance_clock w test_clock_id new_frozen_time) =
           snd (advance_clock w test_clock_id (tc_frozen_time c + 1))"
    and "\<exists>rest. fst (advance_clock w test_clock_id (tc_frozen_time c + 1)) =
           AdvanceCall test_clock_id (tc_frozen_time c + 1) # rest"
  using assms
  by (auto simp: advance_clock_def Let_def split: option.splits sum.splits)

lemma wait_until_testclock_ready_first:
  "tc_status r = ''ready'' \<Longrightarrow>
   wait_until_testclock_ready test_clock_id ((Inr r, x) # ps) = Some (Inr r)"
  by simp

lemma wait_until_testclock_ready_next:
  "tc_status r \<noteq> ''ready'' \<Longrightarrow>
   wait_until_testclock_ready test_clock_id ((Inr r, x) # ps) =
     (if x then Some (Inl (TimeoutError test_clock_id))
      else wait_until_testclock_ready test_clock_id ps)"
  by simp

lemma poll_until_ready_first:
  "ready_at ft tc2 \<Longrightarrow> poll_until_ready clock_id ft ((Inr tc2, x) # ps) = Some (Inr tc2)"
  by simp

lemma poll_until_ready_next:
  "\<not> ready_at ft tc2 \<Longrightarrow>
   poll_until_ready clock_id ft ((Inr tc2, x) # ps) =
     (if x then Some (Inl (TimeoutError clock_id)) else poll_until_ready clock_id ft ps)"
  by simp

lemma advance_clock_on_ready:
  assumes "aw_first w = Inr c" and "aw_advance w = None"
    and "aw_polls w = (Inr r, x) # ps" and "tc_status r = ''ready''"
    and "aw_last w = Inr tc2"
  shows "advance_clock w test_clock_id new_frozen_time =
           ((if new_frozen_time \<le> tc_frozen_time c
             then [Warning new_frozen_time (tc_frozen_time c) (tc_frozen_time c + 1)] else [])
            @ [AdvanceCall test_clock_id
                 (if new_frozen_time \<le> tc_frozen_time c then tc_frozen_time c + 1
                  else new_frozen_time),
               Done (tc_frozen_time tc2) (tc_status tc2)],
            Some (Inr ()))"
  using assms by (simp add: advance_clock_def Let_def)

lemma non_increasing_target_bump:
  "(first_retrieve m = Inr tc \<and> read_frozen_time tc = Some cur \<and> frozen_time \<le> cur \<longrightarrow>
      advance_test_clock m clock_id frozen_time = advance_test_clock m clock_id (cur + 1)
      \<and> set (requests (fst (advance_test_clock m clock_id frozen_time))) = {cur + 1}
      \<and> (\<forall>e. snd (advance_test_clock m clock_id frozen_time) = Some (Inl e) \<longrightarrow>
             (e = RuntimeError clock_id 8 \<and> (\<forall>i<8. advance_outcome m i \<noteq> None))
             \<or> e = TimeoutError clock_id)
      \<and> (\<forall>tc2. snd (advance_test_clock m clock_id frozen_time) = Some (Inr tc2) \<longrightarrow>
             read_status tc2 = Some ''ready''
             \<and> (\<forall>new_frozen. read_frozen_time tc2 = Some new_frozen \<longrightarrow> cur < new_frozen)))
   \<and> (aw_first w = Inr c \<and> new_frozen_time \<le> tc_frozen_time c \<longrightarrow>
        fst (advance_clock w test_clock_id new_frozen_time) =
          Warning new_frozen_time (tc_frozen_time c) (tc_frozen_time c + 1)
            # fst (advance_clock w test_clock_id (tc_frozen_time c + 1))
        \<and> snd (advance_clock w test_clock_id new_frozen_time) =
            snd (advance_clock w test_clock_id (tc_frozen_time c + 1))
        \<and> (\<exists>rest. fst (advance_clock w test_clock_id (tc_frozen_time c + 1)) =
              AdvanceCall test_clock_id (tc_frozen_time c + 1) # rest))"
proof (intro conjI impI)
  assume h: "first_retrieve m = Inr tc \<and> read_frozen_time tc = Some cur \<and> frozen_time \<le> cur"
  then have obs: "observed_frozen_time m = Some cur"
    by (simp add: observed_frozen_time_def)
  have eff: "effective_frozen_time (observed_frozen_time m) frozen_time = cur + 1"
    "effective_frozen_time (observed_frozen_time m) (cur + 1) = cur + 1"
    using h effective_frozen_time_bump [of frozen_time cur] unfolding obs by simp_all
  show "advance_test_clock m clock_id frozen_time = advance_test_clock m clock_id (cur + 1)"
    by (rule advance_test_clock_depends_on_target) (simp add: eff)
  show "set (requests (fst (advance_test_clock m clock_id frozen_time))) = {cur + 1}"
    using advance_test_clock_requests [of m clock_id frozen_time] by (simp add: eff)
  show "\<forall>e. snd (advance_test_clock m clock_id frozen_time) = Some (Inl e) \<longrightarrow>
             (e = RuntimeError clock_id 8 \<and> (\<forall>i<8. advance_outcome m i \<noteq> None))
             \<or> e = TimeoutError clock_id"
    using advance_test_clock_failure [of m clock_id frozen_time] by blast
  show "\<forall>tc2. snd (advance_test_clock m clock_id frozen_time) = Some (Inr tc2) \<longrightarrow>
             read_status tc2 = Some ''ready''
             \<and> (\<forall>new_frozen. read_frozen_time tc2 = Some new_frozen \<longrightarrow> cur < new_frozen)"
  proof (intro allI impI)
    fix tc2
    assume "snd (advance_test_clock m clock_id frozen_time) = Some (Inr tc2)"
    then have "ready_at (cur + 1) tc2"
      using advance_test_clock_success [of m clock_id frozen_time tc2] by (simp add: eff)
    then show "read_status tc2 = Some ''ready''
             \<and> (\<forall>new_frozen. read_frozen_time tc2 = Some new_frozen \<longrightarrow> cur < new_frozen)"
      by (auto simp: ready_at_def)
  qed
next
  assume h: "aw_first w = Inr c \<and> new_frozen_time \<le> tc_frozen_time c"
  then show "fst (advance_clock w test_clock_id new_frozen_time) =
          Warning new_frozen_time (tc_frozen_time c) (tc_frozen_time c + 1)
            # fst (advance_clock w test_clock_id (tc_frozen_time c + 1))"
    using advance_clock_bump(1) [of w c new_frozen_time test_clock_id] by simp
  from h show "snd (advance_clock w test_clock_id new_frozen_time) =
            snd (advance_clock w test_clock_id (tc_frozen_time c + 1))"
    using advance_clock_bump(2) [of w c new_frozen_time test_clock_id] by simp
  from h show "\<exists>rest. fst (advance_clock w test_clock_id (tc_frozen_time c + 1)) =
              AdvanceCall test_clock_id (tc_frozen_time c + 1) # rest"
    using advance_clock_bump(3) [of w c new_frozen_time test_clock_id] by simp
qed

text \<open>
  C1, as the code has it. Whenever the requested time is not after the frozen time the
  call has observed, the call behaves as a call for \<open>cur + 1\<close>: every request it sends
  carries \<open>cur + 1\<close>, it fails only when the remote does (all eight attempts raised, or the
  polling budget ran out), and \<^verbatim>\<open>advance_clock\<close> differs from the call for \<open>cur + 1\<close> by the
  warning it prints. On success \<^verbatim>\<open>advance_test_clock\<close> returns a clock that reads
  \<^verbatim>\<open>ready\<close> and whose frozen time, when the read yields one, is after \<open>cur\<close>.
  \<^verbatim>\<open>advance_clock\<close> returns no clock (its result is the unit) and compares no frozen
  time after the request: its polling loop returns the first clock whose status is
  \<^verbatim>\<open>ready\<close>, whatever that clock's frozen time, and the call then completes, printing
  whatever frozen time the closing \<^verbatim>\<open>retrieve\<close> shows.
\<close>

theorem advance_non_increasing_target:
  "(first_retrieve m = Inr tc \<and> read_frozen_time tc = Some cur \<and> frozen_time \<le> cur \<longrightarrow>
      advance_test_clock m clock_id frozen_time = advance_test_clock m clock_id (cur + 1)
      \<and> set (requests (fst (advance_test_clock m clock_id frozen_time))) = {cur + 1}
      \<and> (\<forall>e. snd (advance_test_clock m clock_id frozen_time) = Some (Inl e) \<longrightarrow>
             (e = RuntimeError clock_id 8 \<and> (\<forall>i<8. advance_outcome m i \<noteq> None))
             \<or> e = TimeoutError clock_id)
      \<and> (\<forall>tc2. snd (advance_test_clock m clock_id frozen_time) = Some (Inr tc2) \<longrightarrow>
             read_status tc2 = Some ''ready''
             \<and> (\<forall>new_frozen. read_frozen_time tc2 = Some new_frozen \<longrightarrow> cur < new_frozen)))
   \<and> (aw_first w = Inr c \<and> new_frozen_time \<le> tc_frozen_time c \<longrightarrow>
        fst (advance_clock w test_clock_id new_frozen_time) =
          Warning new_frozen_time (tc_frozen_time c) (tc_frozen_time c + 1)
            # fst (advance_clock w test_clock_id (tc_frozen_time c + 1))
        \<and> snd (advance_clock w test_clock_id new_frozen_time) =
            snd (advance_clock w test_clock_id (tc_frozen_time c + 1))
        \<and> (\<exists>rest. fst (advance_clock w test_clock_id (tc_frozen_time c + 1)) =
              AdvanceCall test_clock_id (tc_frozen_time c + 1) # rest))
   \<and> (tc_status r = ''ready'' \<longrightarrow>
        wait_until_testclock_ready test_clock_id ((Inr r, x) # ps) = Some (Inr r))
   \<and> (aw_first w = Inr c \<and> new_frozen_time \<le> tc_frozen_time c \<and> aw_advance w = None
        \<and> aw_polls w = (Inr r, x) # ps \<and> tc_status r = ''ready'' \<and> aw_last w = Inr closing \<longrightarrow>
        advance_clock w test_clock_id new_frozen_time =
          ([Warning new_frozen_time (tc_frozen_time c) (tc_frozen_time c + 1),
            AdvanceCall test_clock_id (tc_frozen_time c + 1),
            Done (tc_frozen_time closing) (tc_status closing)],
           Some (Inr ())))"
proof -
  note core = non_increasing_target_bump
      [where m = m and tc = tc and cur = cur and frozen_time = frozen_time
         and clock_id = clock_id and w = w and c = c and new_frozen_time = new_frozen_time
         and test_clock_id = test_clock_id]
  have first: "tc_status r = ''ready'' \<longrightarrow>
        wait_until_testclock_ready test_clock_id ((Inr r, x) # ps) = Some (Inr r)"
    by (simp add: wait_until_testclock_ready_first)
  have completes: "aw_first w = Inr c \<and> new_frozen_time \<le> tc_frozen_time c \<and> aw_advance w = None
        \<and> aw_polls w = (Inr r, x) # ps \<and> tc_status r = ''ready'' \<and> aw_last w = Inr closing \<longrightarrow>
        advance_clock w test_clock_id new_frozen_time =
          ([Warning new_frozen_time (tc_frozen_time c) (tc_frozen_time c + 1),
            AdvanceCall test_clock_id (tc_frozen_time c + 1),
            Done (tc_frozen_time closing) (tc_status closing)],
           Some (Inr ()))"
  proof
    assume h: "aw_first w = Inr c \<and> new_frozen_time \<le> tc_frozen_time c \<and> aw_advance w = None
        \<and> aw_polls w = (Inr r, x) # ps \<and> tc_status r = ''ready'' \<and> aw_last w = Inr closing"
    then have "advance_clock w test_clock_id new_frozen_time =
           ((if new_frozen_time \<le> tc_frozen_time c
             then [Warning new_frozen_time (tc_frozen_time c) (tc_frozen_time c + 1)] else [])
            @ [AdvanceCall test_clock_id
                 (if new_frozen_time \<le> tc_frozen_time c then tc_frozen_time c + 1
                  else new_frozen_time),
               Done (tc_frozen_time closing) (tc_status closing)],
            Some (Inr ()))"
      by (intro advance_clock_on_ready [where r = r and x = x and ps = ps]) simp_all
    with h show "advance_clock w test_clock_id new_frozen_time =
          ([Warning new_frozen_time (tc_frozen_time c) (tc_frozen_time c + 1),
            AdvanceCall test_clock_id (tc_frozen_time c + 1),
            Done (tc_frozen_time closing) (tc_status closing)],
           Some (Inr ()))"
      by simp
  qed
  from core first completes show ?thesis by blast
qed

theorem advance_non_increasing_target_witness:
  "set (requests (fst (advance_test_clock prompt_module ''clock_1'' 50))) = {101}
   \<and> snd (advance_test_clock prompt_module ''clock_1'' 50) = Some (Inr (stripe_clock 101 ''ready''))
   \<and> read_frozen_time (stripe_clock 101 ''ready'') = Some 101
   \<and> wait_until_testclock_ready ''clock_1'' (aw_polls (settled_at 101)) =
       Some (Inr \<lparr>tc_frozen_time = 101, tc_status = ''ready''\<rparr>)
   \<and> advance_clock (settled_at 101) ''clock_1'' 50 =
       ([Warning 50 100 101, AdvanceCall ''clock_1'' 101, Done 101 ''ready''], Some (Inr ()))"
proof -
  have h1: "first_retrieve prompt_module = Inr (stripe_clock 100 ''ready'')
            \<and> read_frozen_time (stripe_clock 100 ''ready'') = Some 100 \<and> (50::int) \<le> 100"
    by (simp add: prompt_module_def read_frozen_time_def getattr_or_get_def stripe_clock_def)
  have h2: "tc_status \<lparr>tc_frozen_time = 101, tc_status = ''ready''\<rparr> = ''ready''"
    by simp
  have h3: "aw_first (settled_at 101) = Inr \<lparr>tc_frozen_time = 100, tc_status = ''ready''\<rparr>
            \<and> (50::int) \<le> tc_frozen_time \<lparr>tc_frozen_time = 100, tc_status = ''ready''\<rparr>
            \<and> aw_advance (settled_at 101) = None
            \<and> aw_polls (settled_at 101) =
                 (Inr \<lparr>tc_frozen_time = 101, tc_status = ''ready''\<rparr>, False) # []
            \<and> tc_status \<lparr>tc_frozen_time = 101, tc_status = ''ready''\<rparr> = ''ready''
            \<and> aw_last (settled_at 101) = Inr \<lparr>tc_frozen_time = 101, tc_status = ''ready''\<rparr>"
    by (simp add: settled_at_def)
  have run: "snd (advance_test_clock prompt_module ''clock_1'' 50) =
               Some (Inr (stripe_clock 101 ''ready''))"
    by code_simp
  have rd: "read_frozen_time (stripe_clock 101 ''ready'') = Some 101"
    by (simp add: read_frozen_time_def getattr_or_get_def stripe_clock_def)
  note inst = advance_non_increasing_target
      [where m = prompt_module and tc = "stripe_clock 100 ''ready''" and cur = 100
         and frozen_time = 50 and clock_id = "''clock_1''" and w = "settled_at 101"
         and c = "\<lparr>tc_frozen_time = 100, tc_status = ''ready''\<rparr>" and new_frozen_time = 50
         and test_clock_id = "''clock_1''"
         and r = "\<lparr>tc_frozen_time = 101, tc_status = ''ready''\<rparr>" and x = False and ps = "[]"
         and closing = "\<lparr>tc_frozen_time = 101, tc_status = ''ready''\<rparr>"]
  from inst h1 have a: "set (requests (fst (advance_test_clock prompt_module ''clock_1'' 50))) = {100 + 1}"
    by blast
  from inst h2 have b: "wait_until_testclock_ready ''clock_1''
                         ((Inr \<lparr>tc_frozen_time = 101, tc_status = ''ready''\<rparr>, False) # []) =
                       Some (Inr \<lparr>tc_frozen_time = 101, tc_status = ''ready''\<rparr>)"
    by blast
  from inst h3 have c: "advance_clock (settled_at 101) ''clock_1'' 50 =
       ([Warning 50 (tc_frozen_time \<lparr>tc_frozen_time = 100, tc_status = ''ready''\<rparr>)
           (tc_frozen_time \<lparr>tc_frozen_time = 100, tc_status = ''ready''\<rparr> + 1),
         AdvanceCall ''clock_1'' (tc_frozen_time \<lparr>tc_frozen_time = 100, tc_status = ''ready''\<rparr> + 1),
         Done (tc_frozen_time \<lparr>tc_frozen_time = 101, tc_status = ''ready''\<rparr>)
              (tc_status \<lparr>tc_frozen_time = 101, tc_status = ''ready''\<rparr>)],
        Some (Inr ()))"
    by blast
  from a b c run rd h3 show ?thesis by simp
qed

text \<open>
  C1 as stated promises a frozen time after the observed one on every success.
  \<^verbatim>\<open>advance_clock\<close> waits with \<^verbatim>\<open>wait_until_testclock_ready\<close>, which returns on the
  status alone: with a remote that still answers \<^verbatim>\<open>ready\<close> at 100 the call for 50
  sends 101 and completes, and the clock it reads last stands at 100.
\<close>

theorem advance_clock_stale_success:
  "advance_clock stale_world ''clock_1'' 50 =
     ([Warning 50 100 101, AdvanceCall ''clock_1'' 101, Done 100 ''ready''], Some (Inr ()))"
  by (simp add: advance_clock_def stale_world_def)

lemma successful_poll_reads_ready:
  "(snd (advance_test_clock m clock_id frozen_time) = Some (Inr tc2) \<longrightarrow>
      read_status tc2 = Some ''ready''
      \<and> (\<forall>new_frozen. read_frozen_time tc2 = Some new_frozen \<longrightarrow>
            effective_frozen_time (observed_frozen_time m) frozen_time \<le> new_frozen))
   \<and> (wait_until_testclock_ready test_clock_id ps = Some (Inr tc) \<longrightarrow> tc_status tc = ''ready'')
   \<and> (snd (advance_clock w test_clock_id new_frozen_time) = Some (Inr ()) \<longrightarrow>
        (\<exists>ready. wait_until_testclock_ready test_clock_id (aw_polls w) = Some (Inr ready)
                  \<and> tc_status ready = ''ready''))"
proof (intro conjI impI)
  assume "snd (advance_test_clock m clock_id frozen_time) = Some (Inr tc2)"
  then have "ready_at (effective_frozen_time (observed_frozen_time m) frozen_time) tc2"
    by (rule advance_test_clock_success)
  then show "read_status tc2 = Some ''ready''"
    and "\<forall>new_frozen. read_frozen_time tc2 = Some new_frozen \<longrightarrow>
            effective_frozen_time (observed_frozen_time m) frozen_time \<le> new_frozen"
    by (auto simp: ready_at_def)
next
  assume "wait_until_testclock_ready test_clock_id ps = Some (Inr tc)"
  then show "tc_status tc = ''ready''" by (rule wait_until_testclock_ready_success)
next
  assume "snd (advance_clock w test_clock_id new_frozen_time) = Some (Inr ())"
  then obtain ready where "wait_until_testclock_ready test_clock_id (aw_polls w) = Some (Inr ready)"
    by (auto simp: advance_clock_def Let_def split: option.splits sum.splits)
  then show "\<exists>ready. wait_until_testclock_ready test_clock_id (aw_polls w) = Some (Inr ready)
                  \<and> tc_status ready = ''ready''"
    using wait_until_testclock_ready_success by blast
qed

text \<open>
  C2, as the code has it. A successful \<^verbatim>\<open>advance_test_clock\<close> returns a clock that reads
  \<^verbatim>\<open>ready\<close> and whose frozen time, when the read yields one, is at least the effective
  target; its polling loop returns a retrieved clock exactly when that holds of it
  (\<open>ready_at\<close>) and otherwise raises on an exceeded budget or polls again. The polling
  loop of \<^verbatim>\<open>advance_clock\<close>, \<^verbatim>\<open>wait_until_testclock_ready\<close>, does not look at the frozen
  time: it returns a retrieved clock exactly when its status is \<^verbatim>\<open>ready\<close>, so that
  \<^verbatim>\<open>advance_clock\<close> completes on the first \<^verbatim>\<open>ready\<close> clock whatever frozen time that
  clock and the closing \<^verbatim>\<open>retrieve\<close> show.
\<close>

theorem polling_exit_condition:
  "(snd (advance_test_clock m clock_id frozen_time) = Some (Inr tc2) \<longrightarrow>
      read_status tc2 = Some ''ready''
      \<and> (\<forall>new_frozen. read_frozen_time tc2 = Some new_frozen \<longrightarrow>
            effective_frozen_time (observed_frozen_time m) frozen_time \<le> new_frozen))
   \<and> (wait_until_testclock_ready test_clock_id ps = Some (Inr tc) \<longrightarrow> tc_status tc = ''ready'')
   \<and> (snd (advance_clock w test_clock_id new_frozen_time) = Some (Inr ()) \<longrightarrow>
        (\<exists>ready. wait_until_testclock_ready test_clock_id (aw_polls w) = Some (Inr ready)
                  \<and> tc_status ready = ''ready''))
   \<and> (ready_at ft tc2 \<longrightarrow>
        poll_until_ready clock_id ft ((Inr tc2, x) # pls) = Some (Inr tc2))
   \<and> (\<not> ready_at ft tc2 \<longrightarrow>
        poll_until_ready clock_id ft ((Inr tc2, x) # pls) =
          (if x then Some (Inl (TimeoutError clock_id)) else poll_until_ready clock_id ft pls))
   \<and> (tc_status r = ''ready'' \<longrightarrow>
        wait_until_testclock_ready test_clock_id ((Inr r, x) # ps) = Some (Inr r))
   \<and> (tc_status r \<noteq> ''ready'' \<longrightarrow>
        wait_until_testclock_ready test_clock_id ((Inr r, x) # ps) =
          (if x then Some (Inl (TimeoutError test_clock_id))
           else wait_until_testclock_ready test_clock_id ps))
   \<and> (aw_first w = Inr c \<and> aw_advance w = None \<and> aw_polls w = (Inr r, x) # ps
        \<and> tc_status r = ''ready'' \<and> aw_last w = Inr closing \<longrightarrow>
        advance_clock w test_clock_id new_frozen_time =
          ((if new_frozen_time \<le> tc_frozen_time c
            then [Warning new_frozen_time (tc_frozen_time c) (tc_frozen_time c + 1)] else [])
           @ [AdvanceCall test_clock_id
                (if new_frozen_time \<le> tc_frozen_time c then tc_frozen_time c + 1
                 else new_frozen_time),
              Done (tc_frozen_time closing) (tc_status closing)],
           Some (Inr ())))"
proof -
  note core = successful_poll_reads_ready
      [where m = m and clock_id = clock_id and frozen_time = frozen_time and ?tc2.0 = tc2
         and test_clock_id = test_clock_id and ps = ps and tc = tc and w = w
         and new_frozen_time = new_frozen_time]
  have p1: "ready_at ft tc2 \<longrightarrow>
        poll_until_ready clock_id ft ((Inr tc2, x) # pls) = Some (Inr tc2)"
    by (simp add: poll_until_ready_first)
  have p2: "\<not> ready_at ft tc2 \<longrightarrow>
        poll_until_ready clock_id ft ((Inr tc2, x) # pls) =
          (if x then Some (Inl (TimeoutError clock_id)) else poll_until_ready clock_id ft pls)"
    by (simp add: poll_until_ready_next)
  have w1: "tc_status r = ''ready'' \<longrightarrow>
        wait_until_testclock_ready test_clock_id ((Inr r, x) # ps) = Some (Inr r)"
    by (simp add: wait_until_testclock_ready_first)
  have w2: "tc_status r \<noteq> ''ready'' \<longrightarrow>
        wait_until_testclock_ready test_clock_id ((Inr r, x) # ps) =
          (if x then Some (Inl (TimeoutError test_clock_id))
           else wait_until_testclock_ready test_clock_id ps)"
    by (simp add: wait_until_testclock_ready_next)
  have completes: "aw_first w = Inr c \<and> aw_advance w = None \<and> aw_polls w = (Inr r, x) # ps
        \<and> tc_status r = ''ready'' \<and> aw_last w = Inr closing \<longrightarrow>
        advance_clock w test_clock_id new_frozen_time =
          ((if new_frozen_time \<le> tc_frozen_time c
            then [Warning new_frozen_time (tc_frozen_time c) (tc_frozen_time c + 1)] else [])
           @ [AdvanceCall test_clock_id
                (if new_frozen_time \<le> tc_frozen_time c then tc_frozen_time c + 1
                 else new_frozen_time),
              Done (tc_frozen_time closing) (tc_status closing)],
           Some (Inr ()))"
    by (intro impI advance_clock_on_ready [where r = r and x = x and ps = ps]) simp_all
  from core p1 p2 w1 w2 completes show ?thesis by blast
qed

theorem polling_exit_condition_witness:
  "read_status (stripe_clock 101 ''ready'') = Some ''ready''
   \<and> effective_frozen_time (observed_frozen_time prompt_module) 50 \<le> 101
   \<and> poll_until_ready ''clock_1'' 101 (polls prompt_module) = Some (Inr (stripe_clock 101 ''ready''))
   \<and> wait_until_testclock_ready ''clock_1'' (aw_polls settling_world) =
       Some (Inr \<lparr>tc_frozen_time = 101, tc_status = ''ready''\<rparr>)
   \<and> advance_clock (settled_at 300) ''clock_1'' 200 =
       ([AdvanceCall ''clock_1'' 200, Done 300 ''ready''], Some (Inr ()))"
proof -
  let ?adv = "\<lparr>tc_frozen_time = 100, tc_status = ''advancing''\<rparr>"
  let ?rdy = "\<lparr>tc_frozen_time = 101, tc_status = ''ready''\<rparr>"
  let ?at300 = "\<lparr>tc_frozen_time = 300, tc_status = ''ready''\<rparr>"
  have h1: "snd (advance_test_clock prompt_module ''clock_1'' 50) =
              Some (Inr (stripe_clock 101 ''ready''))"
    by code_simp
  have rd: "read_frozen_time (stripe_clock 101 ''ready'') = Some 101"
    by (simp add: read_frozen_time_def getattr_or_get_def stripe_clock_def)
  have rdy: "ready_at 101 (stripe_clock 101 ''ready'')"
    by (simp add: ready_at_def read_frozen_time_def read_status_def getattr_or_get_def
        stripe_clock_def)
  have nrdy: "\<not> ready_at 101 (stripe_clock 100 ''advancing'')"
    by (simp add: ready_at_def read_frozen_time_def read_status_def getattr_or_get_def
        stripe_clock_def)
  have st1: "tc_status ?adv \<noteq> ''ready''" by simp
  have st2: "tc_status ?rdy = ''ready''" by simp
  have h5: "aw_first (settled_at 300) = Inr \<lparr>tc_frozen_time = 100, tc_status = ''ready''\<rparr>
            \<and> aw_advance (settled_at 300) = None
            \<and> aw_polls (settled_at 300) = (Inr ?at300, False) # []
            \<and> tc_status ?at300 = ''ready''
            \<and> aw_last (settled_at 300) = Inr ?at300"
    by (simp add: settled_at_def)
  txt \<open>The call of \<^verbatim>\<open>advance_test_clock\<close> that succeeds.\<close>
  from polling_exit_condition
         [where m = prompt_module and clock_id = "''clock_1''" and frozen_time = 50
            and ?tc2.0 = "stripe_clock 101 ''ready''"] h1 rd
  have a: "read_status (stripe_clock 101 ''ready'') = Some ''ready''
           \<and> effective_frozen_time (observed_frozen_time prompt_module) 50 \<le> 101"
    by blast
  txt \<open>Its polling loop: the first clock is not yet at the target, the second is.\<close>
  from polling_exit_condition
         [where ft = 101 and ?tc2.0 = "stripe_clock 100 ''advancing''" and clock_id = "''clock_1''"
            and x = False and pls = "[(Inr (stripe_clock 101 ''ready''), False)]"] nrdy
  have b1: "poll_until_ready ''clock_1'' 101
              ((Inr (stripe_clock 100 ''advancing''), False) # [(Inr (stripe_clock 101 ''ready''), False)])
            = poll_until_ready ''clock_1'' 101 [(Inr (stripe_clock 101 ''ready''), False)]"
    by simp
  from polling_exit_condition
         [where ft = 101 and ?tc2.0 = "stripe_clock 101 ''ready''" and clock_id = "''clock_1''"
            and x = False and pls = "[]"] rdy
  have b2: "poll_until_ready ''clock_1'' 101 ((Inr (stripe_clock 101 ''ready''), False) # [])
            = Some (Inr (stripe_clock 101 ''ready''))"
    by blast
  from b1 b2 have b: "poll_until_ready ''clock_1'' 101 (polls prompt_module) =
                        Some (Inr (stripe_clock 101 ''ready''))"
    by (simp add: prompt_module_def)
  txt \<open>The polling loop of \<^verbatim>\<open>advance_clock\<close>.\<close>
  from polling_exit_condition
         [where r = ?adv and x = False and test_clock_id = "''clock_1''"
            and ps = "[(Inr ?rdy, False)]"] st1
  have c1: "wait_until_testclock_ready ''clock_1'' ((Inr ?adv, False) # [(Inr ?rdy, False)])
            = wait_until_testclock_ready ''clock_1'' [(Inr ?rdy, False)]"
    by simp
  from polling_exit_condition
         [where r = ?rdy and x = False and test_clock_id = "''clock_1''" and ps = "[]"] st2
  have c2: "wait_until_testclock_ready ''clock_1'' ((Inr ?rdy, False) # []) = Some (Inr ?rdy)"
    by blast
  from c1 c2 have c: "wait_until_testclock_ready ''clock_1'' (aw_polls settling_world) =
                        Some (Inr ?rdy)"
    by (simp add: settling_world_def)
  from polling_exit_condition
         [where w = "settled_at 300" and c = "\<lparr>tc_frozen_time = 100, tc_status = ''ready''\<rparr>"
            and r = ?at300 and x = False and ps = "[]" and closing = ?at300
            and test_clock_id = "''clock_1''" and new_frozen_time = 200] h5
  have d: "advance_clock (settled_at 300) ''clock_1'' 200 =
       ([AdvanceCall ''clock_1'' 200, Done 300 ''ready''], Some (Inr ()))"
    by simp
  from a b c d show ?thesis by simp
qed

text \<open>
  C2 as stated has every polling loop exit successfully only at or past the target.
  \<^verbatim>\<open>wait_until_testclock_ready\<close> returns the first clock whose status is \<^verbatim>\<open>ready\<close>:
  asked for 200 on a remote that still answers \<^verbatim>\<open>ready\<close> at 100, \<^verbatim>\<open>advance_clock\<close>
  completes with the clock at 100.
\<close>

theorem wait_until_ready_ignores_frozen_time:
  "wait_until_testclock_ready ''clock_1'' (aw_polls stale_world) =
     Some (Inr \<lparr>tc_frozen_time = 100, tc_status = ''ready''\<rparr>)
   \<and> advance_clock stale_world ''clock_1'' 200 =
       ([AdvanceCall ''clock_1'' 200, Done 100 ''ready''], Some (Inr ()))"
  by (simp add: advance_clock_def stale_world_def)

text \<open>
  C7, as the code has it. \<^verbatim>\<open>advance_test_clock\<close> sends the request at most eight times:
  some number \<open>k \<le> 8\<close> of attempts raise, attempt \<open>n\<close> of them being followed by a sleep of
  \<open>min(0.5 * 1.5^n, 5.0)\<close> seconds, and then either the next attempt returns (\<open>k < 8\<close>) or
  the function raises the \<^verbatim>\<open>RuntimeError\<close> that names the clock (\<open>k = 8\<close>).
  \<^verbatim>\<open>advance_clock\<close> sends the request once; when that request raises, the exception
  leaves \<^verbatim>\<open>advance_clock\<close> as it is, without a sleep or a second attempt.
\<close>

theorem advance_attempts_bounded:
  "(\<exists>k\<le>8. (\<forall>i<k. advance_outcome m i \<noteq> None)
        \<and> (k < 8 \<longrightarrow> advance_outcome m k = None)
        \<and> fst (advance_test_clock m clock_id frozen_time) =
            concat (map (\<lambda>n. [Advance clock_id (effective_frozen_time (observed_frozen_time m) frozen_time),
                              Sleep (min (1 / 2 * (3 / 2) ^ n) 5)]) [0..<k])
              @ (if k < 8
                 then [Advance clock_id (effective_frozen_time (observed_frozen_time m) frozen_time)]
                 else [])
        \<and> (k = 8 \<longrightarrow> snd (advance_test_clock m clock_id frozen_time) =
                         Some (Inl (RuntimeError clock_id 8))))
   \<and> (aw_first w = Inr c \<and> aw_advance w = Some e \<longrightarrow>
        advance_clock w test_clock_id new_frozen_time =
          ((if new_frozen_time \<le> tc_frozen_time c
            then [Warning new_frozen_time (tc_frozen_time c) (tc_frozen_time c + 1)] else [])
           @ [AdvanceCall test_clock_id
                (if new_frozen_time \<le> tc_frozen_time c then tc_frozen_time c + 1
                 else new_frozen_time)],
           Some (Inl e)))"
proof (intro conjI impI)
  let ?ft = "effective_frozen_time (observed_frozen_time m) frozen_time"
  obtain k where k: "k \<le> 8" "\<forall>i<k. advance_outcome m i \<noteq> None"
    "k < 8 \<longrightarrow> advance_outcome m k = None"
    "advance_test_clock m clock_id frozen_time =
         (concat (map (failed_attempt clock_id ?ft) [0..<k])
            @ (if k < 8 then [Advance clock_id ?ft] else []),
          if k < 8 then poll_until_ready clock_id ?ft (polls m)
          else Some (Inl (RuntimeError clock_id 8)))"
    using advance_test_clock_char [of m clock_id frozen_time] by blast
  have fa: "failed_attempt clock_id ?ft = (\<lambda>n. [Advance clock_id ?ft, Sleep (min (1 / 2 * (3 / 2) ^ n) 5)])"
    by (rule ext) (simp add: failed_attempt_def)
  have "fst (advance_test_clock m clock_id frozen_time) =
            concat (map (\<lambda>n. [Advance clock_id ?ft, Sleep (min (1 / 2 * (3 / 2) ^ n) 5)]) [0..<k])
              @ (if k < 8 then [Advance clock_id ?ft] else [])"
    unfolding k(4) fa by simp
  moreover have "k = 8 \<longrightarrow> snd (advance_test_clock m clock_id frozen_time) =
                         Some (Inl (RuntimeError clock_id 8))"
    unfolding k(4) by simp
  ultimately show "\<exists>k\<le>8. (\<forall>i<k. advance_outcome m i \<noteq> None)
        \<and> (k < 8 \<longrightarrow> advance_outcome m k = None)
        \<and> fst (advance_test_clock m clock_id frozen_time) =
            concat (map (\<lambda>n. [Advance clock_id ?ft, Sleep (min (1 / 2 * (3 / 2) ^ n) 5)]) [0..<k])
              @ (if k < 8 then [Advance clock_id ?ft] else [])
        \<and> (k = 8 \<longrightarrow> snd (advance_test_clock m clock_id frozen_time) =
                         Some (Inl (RuntimeError clock_id 8)))"
    using k(1,2,3) by blast
next
  assume "aw_first w = Inr c \<and> aw_advance w = Some e"
  then show "advance_clock w test_clock_id new_frozen_time =
          ((if new_frozen_time \<le> tc_frozen_time c
            then [Warning new_frozen_time (tc_frozen_time c) (tc_frozen_time c + 1)] else [])
           @ [AdvanceCall test_clock_id
                (if new_frozen_time \<le> tc_frozen_time c then tc_frozen_time c + 1
                 else new_frozen_time)],
           Some (Inl e))"
    by (simp add: advance_clock_def Let_def)
qed

theorem advance_attempts_bounded_witness:
  "advance_test_clock throttled_module ''clock_1'' 50 =
     ([Advance ''clock_1'' 101, Sleep (1 / 2), Advance ''clock_1'' 101, Sleep (3 / 4),
       Advance ''clock_1'' 101, Sleep (9 / 8), Advance ''clock_1'' 101, Sleep (27 / 16),
       Advance ''clock_1'' 101, Sleep (81 / 32), Advance ''clock_1'' 101, Sleep (243 / 64),
       Advance ''clock_1'' 101, Sleep 5, Advance ''clock_1'' 101, Sleep 5],
      Some (Inl (RuntimeError ''clock_1'' 8)))
   \<and> advance_clock throttled_world ''clock_1'' 50 =
       ([Warning 50 100 101, AdvanceCall ''clock_1'' 101], Some (Inl RateLimitError))"
proof -
  have h: "aw_first throttled_world = Inr \<lparr>tc_frozen_time = 100, tc_status = ''ready''\<rparr>
           \<and> aw_advance throttled_world = Some RateLimitError"
    by (simp add: throttled_world_def)
  have run: "advance_test_clock throttled_module ''clock_1'' 50 =
     ([Advance ''clock_1'' 101, Sleep (1 / 2), Advance ''clock_1'' 101, Sleep (3 / 4),
       Advance ''clock_1'' 101, Sleep (9 / 8), Advance ''clock_1'' 101, Sleep (27 / 16),
       Advance ''clock_1'' 101, Sleep (81 / 32), Advance ''clock_1'' 101, Sleep (243 / 64),
       Advance ''clock_1'' 101, Sleep 5, Advance ''clock_1'' 101, Sleep 5],
      Some (Inl (RuntimeError ''clock_1'' 8)))"
    by code_simp
  from advance_attempts_bounded
         [of throttled_module "''clock_1''" 50 throttled_world
             "\<lparr>tc_frozen_time = 100, tc_status = ''ready''\<rparr>" RateLimitError "''clock_1''" 50]
       h
  have "advance_clock throttled_world ''clock_1'' 50 =
       ([Warning 50 100 101, AdvanceCall ''clock_1'' 101], Some (Inl RateLimitError))"
    by simp
  with run show ?thesis by simp
qed

text \<open>
  C7 as stated gives every clock-advance request the retry with back-off.
  \<^verbatim>\<open>advance_clock\<close> has no retry: on a throttled request it has sent one request, slept
  not at all, and raises the \<^verbatim>\<open>RateLimitError\<close> itself.
\<close>

theorem advance_clock_single_attempt:
  "advance_clock throttled_world ''clock_1'' 200 =
     ([AdvanceCall ''clock_1'' 200], Some (Inl RateLimitError))"
  by (simp add: advance_clock_def throttled_world_def)

text \<open>
  C10, as the code has it. The check is skipped, and the requested time sent unmodified,
  when the first \<^verbatim>\<open>retrieve\<close> raises or the read of \<^verbatim>\<open>cur\<close> yields \<^verbatim>\<open>None\<close>; the read
  yields \<^verbatim>\<open>None\<close> exactly when the attribute is missing, \<^verbatim>\<open>None\<close> or \<open>0\<close> and the object
  has no \<^verbatim>\<open>get\<close> or its \<^verbatim>\<open>get\<close> returns \<^verbatim>\<open>None\<close>. On a \<^verbatim>\<open>StripeObject\<close> frozen at \<open>0\<close> the
  fallback \<^verbatim>\<open>tc.get('frozen_time')\<close> returns \<open>0\<close>, so \<^verbatim>\<open>cur\<close> is \<open>0\<close>, the check runs, and a
  request not after \<open>0\<close> is sent as \<open>1\<close>.
\<close>

theorem monotonicity_check_skipped:
  "(first_retrieve m = Inl e \<longrightarrow>
      set (requests (fst (advance_test_clock m clock_id frozen_time))) = {frozen_time})
   \<and> (first_retrieve m = Inr tc \<and> read_frozen_time tc = None \<longrightarrow>
        set (requests (fst (advance_test_clock m clock_id frozen_time))) = {frozen_time})
   \<and> (read_frozen_time tc = None \<longleftrightarrow>
        (attr_frozen_time tc = None \<or> attr_frozen_time tc = Some 0)
        \<and> (has_get tc \<longrightarrow> key_frozen_time tc = None))
   \<and> (first_retrieve m = Inr (stripe_clock 0 st) \<and> frozen_time \<le> 0 \<longrightarrow>
        set (requests (fst (advance_test_clock m clock_id frozen_time))) = {1})"
proof (intro conjI impI)
  assume "first_retrieve m = Inl e"
  then have "effective_frozen_time (observed_frozen_time m) frozen_time = frozen_time"
    by (simp add: observed_frozen_time_def effective_frozen_time_def)
  then show "set (requests (fst (advance_test_clock m clock_id frozen_time))) = {frozen_time}"
    using advance_test_clock_requests [of m clock_id frozen_time] by simp
next
  assume "first_retrieve m = Inr tc \<and> read_frozen_time tc = None"
  then have "effective_frozen_time (observed_frozen_time m) frozen_time = frozen_time"
    by (simp add: observed_frozen_time_def effective_frozen_time_def)
  then show "set (requests (fst (advance_test_clock m clock_id frozen_time))) = {frozen_time}"
    using advance_test_clock_requests [of m clock_id frozen_time] by simp
next
  show "read_frozen_time tc = None \<longleftrightarrow>
        (attr_frozen_time tc = None \<or> attr_frozen_time tc = Some 0)
        \<and> (has_get tc \<longrightarrow> key_frozen_time tc = None)"
    by (auto simp: read_frozen_time_def getattr_or_get_def split: option.splits)
next
  assume "first_retrieve m = Inr (stripe_clock 0 st) \<and> frozen_time \<le> 0"
  then have "effective_frozen_time (observed_frozen_time m) frozen_time = 1"
    by (simp add: observed_frozen_time_def effective_frozen_time_def read_frozen_time_def
        getattr_or_get_def stripe_clock_def)
  then show "set (requests (fst (advance_test_clock m clock_id frozen_time))) = {1}"
    using advance_test_clock_requests [of m clock_id frozen_time] by simp
qed

theorem monotonicity_check_skipped_witness:
  "set (requests (fst (advance_test_clock unreachable_module ''clock_1'' 50))) = {50}
   \<and> set (requests (fst (advance_test_clock bare_module ''clock_1'' 0))) = {0}
   \<and> read_frozen_time bare_epoch_clock = None
   \<and> set (requests (fst (advance_test_clock epoch_module ''clock_1'' (- 5)))) = {1}"
proof -
  have h1: "first_retrieve unreachable_module = Inl RemoteError"
    by (simp add: unreachable_module_def)
  have h2: "first_retrieve bare_module = Inr bare_epoch_clock
            \<and> read_frozen_time bare_epoch_clock = None"
    by (simp add: bare_module_def bare_epoch_clock_def read_frozen_time_def getattr_or_get_def)
  have h3: "first_retrieve epoch_module = Inr (stripe_clock 0 ''ready'') \<and> (- 5 :: int) \<le> 0"
    by (simp add: epoch_module_def)
  from monotonicity_check_skipped [of unreachable_module RemoteError "''clock_1''" 50] h1
  have a: "set (requests (fst (advance_test_clock unreachable_module ''clock_1'' 50))) = {50}"
    by blast
  from monotonicity_check_skipped [of bare_module _ "''clock_1''" 0 bare_epoch_clock] h2
  have b: "set (requests (fst (advance_test_clock bare_module ''clock_1'' 0))) = {0}"
    by blast
  from monotonicity_check_skipped [of epoch_module _ "''clock_1''" "- 5" _ "''ready''"] h3
  have c: "set (requests (fst (advance_test_clock epoch_module ''clock_1'' (- 5)))) = {1}"
    by blast
  from a b c h2 show ?thesis by simp
qed

text \<open>
  C10 as stated has the check skipped for every clock frozen at \<open>0\<close>. For the
  \<^verbatim>\<open>StripeObject\<close> at \<open>0\<close> the read gives \<open>0\<close>, not \<^verbatim>\<open>None\<close>, and the request for \<open>0\<close> is
  sent as \<open>1\<close>.
\<close>

theorem epoch_clock_is_bumped:
  "observed_frozen_time epoch_module = Some 0
   \<and> fst (advance_test_clock epoch_module ''clock_1'' 0) = [Advance ''clock_1'' 1]"
  by (simp add: advance_test_clock_def epoch_module_def observed_frozen_time_def
      read_frozen_time_def getattr_or_get_def stripe_clock_def effective_frozen_time_def
      eval_nat_numeral)

section \<open>Properties of the dunning loop\<close>

lemma retry_rounds_bound:
  "fst (retry_rounds n idx world tc_id b) \<le> n"
proof (induction n arbitrary: idx)
  case 0
  then show ?case by simp
next
  case (Suc n)
  from Suc.IH [of "Suc idx"] show ?case
    by (auto split: prod.splits flow.splits)
qed

lemma advance_clock_returns:
  "wait_until_testclock_ready tc_id (aw_polls w) \<noteq> None \<Longrightarrow> snd (advance_clock w tc_id t) \<noteq> None"
  by (auto simp: advance_clock_def Let_def split: option.splits sum.splits)

lemma retry_round_not_stuck:
  assumes "wait_until_testclock_ready tc_id (aw_polls (rw_advance rw)) \<noteq> None"
  shows "snd (retry_round rw tc_id b) \<noteq> Stuck"
proof -
  have ret: "advance_clock (rw_advance rw) tc_id t \<noteq> (out, None)" for t out
    using advance_clock_returns [OF assms, of t] by auto
  show ?thesis
    by (simp add: retry_round_def Let_def ret
        split: option.splits sum.splits prod.splits)
qed

lemma retry_rounds_returns:
  "(\<forall>j<n. snd (retry_round (world (idx + j)) tc_id b) \<noteq> Stuck) \<Longrightarrow>
   snd (snd (retry_rounds n idx world tc_id b)) \<noteq> None"
proof (induction n arbitrary: idx)
  case 0
  then show ?case by simp
next
  case (Suc n)
  have here: "snd (retry_round (world idx) tc_id b) \<noteq> Stuck"
    using Suc.prems [rule_format, of 0] by simp
  have "\<forall>j<n. snd (retry_round (world (Suc idx + j)) tc_id b) \<noteq> Stuck"
    using Suc.prems by auto
  from Suc.IH [OF this] here show ?case
    by (auto split: prod.splits flow.splits)
qed

lemma retry_rounds_break:
  "i < n \<Longrightarrow> (\<forall>j<i. snd (retry_round (world (idx + j)) tc_id b) = Next) \<Longrightarrow>
   snd (retry_round (world (idx + i)) tc_id b) = Break \<Longrightarrow>
   fst (retry_rounds n idx world tc_id b) = Suc i
   \<and> snd (snd (retry_rounds n idx world tc_id b)) = Some (Inr ())"
proof (induction i arbitrary: n idx)
  case 0
  then obtain n' where "n = Suc n'" by (cases n) auto
  with 0 show ?case by (auto split: prod.splits flow.splits)
next
  case (Suc i)
  then obtain n' where n: "n = Suc n'" by (cases n) auto
  have here: "snd (retry_round (world idx) tc_id b) = Next"
    using Suc.prems(2) [rule_format, of 0] by simp
  have a: "i < n'" using Suc.prems(1) n by simp
  have b: "\<forall>j<i. snd (retry_round (world (Suc idx + j)) tc_id b) = Next"
    using Suc.prems(2) by auto
  have c: "snd (retry_round (world (Suc idx + i)) tc_id b) = Break"
    using Suc.prems(3) by simp
  from Suc.IH [OF a b c] here n show ?case
    by (auto split: prod.splits flow.splits)
qed

lemma retry_rounds_exhausted:
  "(\<forall>j<n. snd (retry_round (world (idx + j)) tc_id b) = Next) \<Longrightarrow>
   fst (retry_rounds n idx world tc_id b) = n
   \<and> snd (snd (retry_rounds n idx world tc_id b)) = Some (Inr ())"
proof (induction n arbitrary: idx)
  case 0
  then show ?case by simp
next
  case (Suc n)
  have here: "snd (retry_round (world idx) tc_id b) = Next"
    using Suc.prems [rule_format, of 0] by simp
  have "\<forall>j<n. snd (retry_round (world (Suc idx + j)) tc_id b) = Next"
    using Suc.prems by auto
  from Suc.IH [OF this] here show ?case
    by (auto split: prod.splits flow.splits)
qed

lemma retry_round_break:
  "rw_subscription rw = Inr None \<or>
   (\<exists>li. rw_subscription rw = Inr (Some li) \<and> li_status li = Some ''paid'') \<Longrightarrow>
   retry_round rw tc_id b = ([], Break)"
  by (auto simp: retry_round_def)

text \<open>
  C5. \<^verbatim>\<open>advance_through_retries\<close> begins at most \<^verbatim>\<open>max_rounds\<close> iterations, whatever
  the invoice does. It comes to an end whenever the polling inside each
  \<^verbatim>\<open>advance_clock\<close> call does (that polling has its own time budget). It stops early
  and returns after iteration \<open>i\<close> when that iteration finds no latest invoice or finds
  the invoice \<^verbatim>\<open>paid\<close>. When every iteration goes on to the next (the invoice is never
  found paid), it returns normally after exactly \<^verbatim>\<open>max_rounds\<close> iterations: the
  exhausted loop is not an error.
\<close>

theorem advance_through_retries_bounded:
  "fst (advance_through_retries world tc_id sub_id buffer_seconds max_rounds) \<le> nat max_rounds
   \<and> ((\<forall>j<nat max_rounds.
          wait_until_testclock_ready tc_id (aw_polls (rw_advance (world j))) \<noteq> None) \<longrightarrow>
        snd (snd (advance_through_retries world tc_id sub_id buffer_seconds max_rounds)) \<noteq> None)
   \<and> (i < nat max_rounds
        \<and> (\<forall>j<i. snd (retry_round (world j) tc_id buffer_seconds) = Next)
        \<and> (rw_subscription (world i) = Inr None
            \<or> (\<exists>li. rw_subscription (world i) = Inr (Some li) \<and> li_status li = Some ''paid'')) \<longrightarrow>
        fst (advance_through_retries world tc_id sub_id buffer_seconds max_rounds) = Suc i
        \<and> snd (snd (advance_through_retries world tc_id sub_id buffer_seconds max_rounds)) =
            Some (Inr ()))
   \<and> ((\<forall>j<nat max_rounds. snd (retry_round (world j) tc_id buffer_seconds) = Next) \<longrightarrow>
        fst (advance_through_retries world tc_id sub_id buffer_seconds max_rounds) = nat max_rounds
        \<and> snd (snd (advance_through_retries world tc_id sub_id buffer_seconds max_rounds)) =
            Some (Inr ()))"
proof (intro conjI impI)
  show "fst (advance_through_retries world tc_id sub_id buffer_seconds max_rounds) \<le> nat max_rounds"
    unfolding advance_through_retries_def by (rule retry_rounds_bound)
next
  assume "\<forall>j<nat max_rounds.
            wait_until_testclock_ready tc_id (aw_polls (rw_advance (world j))) \<noteq> None"
  then have "\<forall>j<nat max_rounds. snd (retry_round (world (0 + j)) tc_id buffer_seconds) \<noteq> Stuck"
    by (simp add: retry_round_not_stuck)
  then show "snd (snd (advance_through_retries world tc_id sub_id buffer_seconds max_rounds)) \<noteq> None"
    unfolding advance_through_retries_def by (rule retry_rounds_returns)
next
  assume h: "i < nat max_rounds
        \<and> (\<forall>j<i. snd (retry_round (world j) tc_id buffer_seconds) = Next)
        \<and> (rw_subscription (world i) = Inr None
            \<or> (\<exists>li. rw_subscription (world i) = Inr (Some li) \<and> li_status li = Some ''paid''))"
  then have brk: "snd (retry_round (world (0 + i)) tc_id buffer_seconds) = Break"
    using retry_round_break [of "world i" tc_id buffer_seconds] by simp
  from h have lt: "i < nat max_rounds"
    and nxt: "\<forall>j<i. snd (retry_round (world (0 + j)) tc_id buffer_seconds) = Next"
    by simp_all
  from retry_rounds_break [OF lt nxt brk]
  show "fst (advance_through_retries world tc_id sub_id buffer_seconds max_rounds) = Suc i"
    and "snd (snd (advance_through_retries world tc_id sub_id buffer_seconds max_rounds)) =
            Some (Inr ())"
    unfolding advance_through_retries_def by simp_all
next
  assume "\<forall>j<nat max_rounds. snd (retry_round (world j) tc_id buffer_seconds) = Next"
  then have "\<forall>j<nat max_rounds. snd (retry_round (world (0 + j)) tc_id buffer_seconds) = Next"
    by simp
  from retry_rounds_exhausted [OF this]
  show "fst (advance_through_retries world tc_id sub_id buffer_seconds max_rounds) = nat max_rounds"
    and "snd (snd (advance_through_retries world tc_id sub_id buffer_seconds max_rounds)) =
            Some (Inr ())"
    unfolding advance_through_retries_def by simp_all
qed

lemma never_paid_goes_on: "retry_round (never_paid j) ''clock_1'' 60 =
  ([AdvanceCall ''clock_1'' 1060, Done 1060 ''ready''], Next)"
  by (simp add: retry_round_def never_paid_def settled_at_def advance_clock_def)

theorem advance_through_retries_bounded_witness:
  "fst (advance_through_retries never_paid ''clock_1'' ''sub_1'' 60 10) = 10
   \<and> snd (snd (advance_through_retries never_paid ''clock_1'' ''sub_1'' 60 10)) = Some (Inr ())
   \<and> fst (advance_through_retries paid_in_third ''clock_1'' ''sub_1'' 60 10) = 3
   \<and> snd (snd (advance_through_retries paid_in_third ''clock_1'' ''sub_1'' 60 10)) = Some (Inr ())"
proof -
  have h1: "\<forall>j<nat 10. snd (retry_round (never_paid j) ''clock_1'' 60) = Next"
    by (simp add: never_paid_goes_on)
  have h2: "2 < nat 10
        \<and> (\<forall>j<2. snd (retry_round (paid_in_third j) ''clock_1'' 60) = Next)
        \<and> (rw_subscription (paid_in_third 2) = Inr None
            \<or> (\<exists>li. rw_subscription (paid_in_third 2) = Inr (Some li)
                     \<and> li_status li = Some ''paid''))"
    by (simp add: paid_in_third_def never_paid_goes_on)
  from advance_through_retries_bounded [of never_paid "''clock_1''" "''sub_1''" 60 10] h1
  have a: "fst (advance_through_retries never_paid ''clock_1'' ''sub_1'' 60 10) = nat 10
           \<and> snd (snd (advance_through_retries never_paid ''clock_1'' ''sub_1'' 60 10)) = Some (Inr ())"
    by blast
  from advance_through_retries_bounded [of paid_in_third "''clock_1''" "''sub_1''" 60 10 2] h2
  have b: "fst (advance_through_retries paid_in_third ''clock_1'' ''sub_1'' 60 10) = Suc 2
           \<and> snd (snd (advance_through_retries paid_in_third ''clock_1'' ''sub_1'' 60 10)) = Some (Inr ())"
    by blast
  from a b show ?thesis by simp
qed

section \<open>Properties of the reconciliation\<close>

lemma paid_ids_append: "paid_ids (xs @ ys) = paid_ids xs @ paid_ids ys"
  by (induction xs rule: paid_ids.induct) auto

lemma count_list_map_filter:
  "count_list (map f xs) y = length (filter (\<lambda>x. f x = y) xs)"
  by (induction xs) auto

lemma finalize_and_pay_calls:
  "fst (finalize_and_pay invs s a) = concat (map calls_for invs)"
  by (induction invs arbitrary: s a)
     (simp_all add: Let_def case_prod_unfold calls_for_def seen_unpaid_def)

lemma paid_ids_calls_for:
  "paid_ids (calls_for iv) = (if seen_unpaid iv \<and> pay_outcome iv = None then [inv_id iv] else [])"
  by (simp add: calls_for_def paid_ids_append)

lemma paid_ids_pass:
  "paid_ids (concat (map calls_for invs)) =
     map inv_id (filter (\<lambda>iv. seen_unpaid iv \<and> pay_outcome iv = None) invs)"
  by (induction invs) (simp_all add: paid_ids_append paid_ids_calls_for)

lemma finalize_and_pay_counter:
  "invoices_paid (fst (snd (finalize_and_pay invs s a))) =
     invoices_paid s + length (paid_ids (concat (map calls_for invs)))"
  by (induction invs arbitrary: s a)
     (simp_all add: Let_def case_prod_unfold paid_ids_append paid_ids_calls_for seen_unpaid_def)

lemma pay_in_pass:
  "Pay i ok \<in> set (concat (map calls_for invs)) \<Longrightarrow>
   \<exists>iv\<in>set invs. inv_id iv = i \<and> seen_unpaid iv"
  by (auto simp: calls_for_def split: if_splits)

lemma finalize_in_pass:
  "Finalize i \<in> set (concat (map calls_for invs)) \<Longrightarrow>
   \<exists>iv\<in>set invs. inv_id iv = i \<and> inv_status iv = ''draft''"
  by (auto simp: calls_for_def split: if_splits)

lemma count_paid_pass:
  "count_list (paid_ids (concat (map calls_for invs))) i \<le>
     length (filter (\<lambda>iv. inv_id iv = i \<and> seen_unpaid iv) invs)"
proof -
  have "count_list (paid_ids (concat (map calls_for invs))) i =
          length (filter (\<lambda>iv. inv_id iv = i) (filter (\<lambda>iv. seen_unpaid iv \<and> pay_outcome iv = None) invs))"
    by (simp add: paid_ids_pass count_list_map_filter)
  also have "\<dots> \<le> length (filter (\<lambda>iv. inv_id iv = i \<and> seen_unpaid iv) invs)"
    by (induction invs) auto
  finally show ?thesis .
qed

text \<open>The passes the block runs: a number \<open>k \<le> n\<close> of listings, one after the other.\<close>

lemma reconcile_attempts_passes:
  "\<exists>k\<le>n. fst (reconcile_attempts n a listing s) =
             concat (map (\<lambda>j. concat (map calls_for (listed (listing j)))) [a..<a + k])
         \<and> invoices_paid (snd (reconcile_attempts n a listing s)) =
             invoices_paid s + length (paid_ids (fst (reconcile_attempts n a listing s)))"
proof (induction n arbitrary: a s)
  case 0
  then show ?case by simp
next
  case (Suc n)
  show ?case
  proof (cases "listing a")
    case (Inl e)
    then show ?thesis by (intro exI [of _ 0]) simp
  next
    case (Inr invs)
    obtain cs s' anything where fap: "finalize_and_pay invs s False = (cs, s', anything)"
      by (cases "finalize_and_pay invs s False") auto
    have cs: "cs = concat (map calls_for invs)"
      using finalize_and_pay_calls [of invs s False] fap by simp
    have cnt: "invoices_paid s' = invoices_paid s + length (paid_ids cs)"
      using finalize_and_pay_counter [of invs s False] fap cs by simp
    have here: "concat (map calls_for (listed (listing a))) = cs"
      using Inr cs by (simp add: listed_def)
    show ?thesis
    proof (cases anything)
      case False
      have "fst (reconcile_attempts (Suc n) a listing s) =
              concat (map (\<lambda>j. concat (map calls_for (listed (listing j)))) [a..<a + 1])"
        using Inr fap False here by simp
      moreover have "invoices_paid (snd (reconcile_attempts (Suc n) a listing s)) =
             invoices_paid s + length (paid_ids (fst (reconcile_attempts (Suc n) a listing s)))"
        using Inr fap False cnt by simp
      ultimately show ?thesis by (intro exI [of _ 1]) simp
    next
      case True
      from Suc.IH [of "Suc a" s'] obtain k where k: "k \<le> n"
        "fst (reconcile_attempts n (Suc a) listing s') =
             concat (map (\<lambda>j. concat (map calls_for (listed (listing j)))) [Suc a..<Suc a + k])"
        "invoices_paid (snd (reconcile_attempts n (Suc a) listing s')) =
             invoices_paid s' + length (paid_ids (fst (reconcile_attempts n (Suc a) listing s')))"
        by blast
      define rest where "rest = [Suc a..<Suc a + k]"
      have upt: "[a..<a + Suc k] = a # rest"
        unfolding rest_def by (simp add: upt_conv_Cons)
      have run: "reconcile_attempts (Suc n) a listing s =
                   (cs @ fst (reconcile_attempts n (Suc a) listing s'),
                    snd (reconcile_attempts n (Suc a) listing s'))"
        using Inr fap True by (simp add: case_prod_unfold Let_def)
      have "fst (reconcile_attempts (Suc n) a listing s) =
              concat (map (\<lambda>j. concat (map calls_for (listed (listing j)))) (a # rest))"
        unfolding run using k(2) here rest_def by simp
      then have one: "fst (reconcile_attempts (Suc n) a listing s) =
              concat (map (\<lambda>j. concat (map calls_for (listed (listing j)))) [a..<a + Suc k])"
        unfolding upt .
      have two: "invoices_paid (snd (reconcile_attempts (Suc n) a listing s)) =
             invoices_paid s + length (paid_ids (fst (reconcile_attempts (Suc n) a listing s)))"
        unfolding run using k(3) cnt by (simp add: paid_ids_append)
      from one two k(1) show ?thesis by (intro exI [of _ "Suc k"]) simp
    qed
  qed
qed

lemma count_paid_passes:
  "count_list (paid_ids (concat (map g js))) i =
     sum_list (map (\<lambda>j. count_list (paid_ids (g j)) i) js)"
  by (induction js) (simp_all add: paid_ids_append)

lemma in_passes:
  "x \<in> set (concat (map g [0..<k])) \<Longrightarrow> \<exists>j<k. x \<in> set (g j)"
  by auto

lemma sum_list_passes_mono:
  fixes f :: "nat \<Rightarrow> nat"
  assumes "k \<le> n"
  shows "sum_list (map f [0..<k]) \<le> (\<Sum>j<n. f j)"
proof -
  have "sum_list (map f [0..<k]) = sum f {0..<k}"
    by (simp add: interv_sum_list_conv_sum_set_nat)
  also have "\<dots> \<le> sum f {0..<n}"
    using assms by (intro sum_mono2) auto
  also have "\<dots> = (\<Sum>j<n. f j)"
    by (simp add: lessThan_atLeast0)
  finally show ?thesis .
qed

text \<open>
  C6. In the finalize-and-pay block, the counter \<^verbatim>\<open>invoices_paid\<close> grows by exactly the
  number of payments that returned. The payments counted for an invoice id are at most
  the listing entries of that id whose re-checked status the passes found \<^verbatim>\<open>open\<close> or
  \<^verbatim>\<open>draft\<close>: a pass that finds the invoice \<^verbatim>\<open>paid\<close> adds nothing for it. A payment is
  attempted only for an invoice seen \<^verbatim>\<open>open\<close> or \<^verbatim>\<open>draft\<close>, a finalization only for one
  listed \<^verbatim>\<open>draft\<close>; an invoice that the passes find \<^verbatim>\<open>paid\<close> is neither finalized nor
  paid nor counted.
\<close>

theorem reconcile_leaves_paid_untouched:
  "invoices_paid (snd (reconcile listing s)) =
     invoices_paid s + length (paid_ids (fst (reconcile listing s)))
   \<and> count_list (paid_ids (fst (reconcile listing s))) i \<le>
       (\<Sum>attempt<3. length (filter (\<lambda>iv. inv_id iv = i \<and> seen_unpaid iv)
                                    (listed (listing attempt))))
   \<and> (\<forall>ok. Pay i ok \<in> set (fst (reconcile listing s)) \<longrightarrow>
         (\<exists>attempt<3. \<exists>iv\<in>set (listed (listing attempt)). inv_id iv = i \<and> seen_unpaid iv))
   \<and> (Finalize i \<in> set (fst (reconcile listing s)) \<longrightarrow>
         (\<exists>attempt<3. \<exists>iv\<in>set (listed (listing attempt)).
            inv_id iv = i \<and> inv_status iv = ''draft''))
   \<and> ((\<forall>attempt<3. \<forall>iv\<in>set (listed (listing attempt)).
          inv_id iv = i \<longrightarrow> inv_status iv = ''paid'' \<and> rechecked_status iv = ''paid'') \<longrightarrow>
        Finalize i \<notin> set (fst (reconcile listing s))
        \<and> (\<forall>ok. Pay i ok \<notin> set (fst (reconcile listing s)))
        \<and> i \<notin> set (paid_ids (fst (reconcile listing s))))"
proof -
  let ?pass = "\<lambda>j. concat (map calls_for (listed (listing j)))"
  let ?unpaid = "\<lambda>attempt. length (filter (\<lambda>iv. inv_id iv = i \<and> seen_unpaid iv)
                                       (listed (listing attempt)))"
  obtain k where k: "k \<le> 3"
    and calls: "fst (reconcile listing s) = concat (map ?pass [0..<k])"
    and counter: "invoices_paid (snd (reconcile listing s)) =
                    invoices_paid s + length (paid_ids (fst (reconcile listing s)))"
    using reconcile_attempts_passes [of 3 0 listing s] unfolding reconcile_def by auto
  have count: "count_list (paid_ids (fst (reconcile listing s))) i \<le> (\<Sum>attempt<3. ?unpaid attempt)"
  proof -
    have "count_list (paid_ids (fst (reconcile listing s))) i =
            sum_list (map (\<lambda>j. count_list (paid_ids (?pass j)) i) [0..<k])"
      unfolding calls by (rule count_paid_passes)
    also have "\<dots> \<le> sum_list (map ?unpaid [0..<k])"
      by (intro sum_list_mono) (simp add: count_paid_pass)
    also have "\<dots> \<le> (\<Sum>attempt<3. ?unpaid attempt)"
      using k by (rule sum_list_passes_mono)
    finally show ?thesis .
  qed
  have pay: "\<exists>attempt<3. \<exists>iv\<in>set (listed (listing attempt)). inv_id iv = i \<and> seen_unpaid iv"
    if "Pay i ok \<in> set (fst (reconcile listing s))" for ok
  proof -
    from that have "Pay i ok \<in> set (concat (map ?pass [0..<k]))"
      unfolding calls .
    from in_passes [OF this] obtain j where j: "j < k" "Pay i ok \<in> set (?pass j)"
      by blast
    from pay_in_pass [OF j(2)] j(1) k show ?thesis
      by (intro exI [of _ j]) auto
  qed
  have fin: "\<exists>attempt<3. \<exists>iv\<in>set (listed (listing attempt)). inv_id iv = i \<and> inv_status iv = ''draft''"
    if "Finalize i \<in> set (fst (reconcile listing s))"
  proof -
    from that have "Finalize i \<in> set (concat (map ?pass [0..<k]))"
      unfolding calls .
    from in_passes [OF this] obtain j where j: "j < k" "Finalize i \<in> set (?pass j)"
      by blast
    from finalize_in_pass [OF j(2)] j(1) k show ?thesis
      by (intro exI [of _ j]) auto
  qed
  have untouched: "Finalize i \<notin> set (fst (reconcile listing s))
        \<and> (\<forall>ok. Pay i ok \<notin> set (fst (reconcile listing s)))
        \<and> i \<notin> set (paid_ids (fst (reconcile listing s)))"
    if all: "\<forall>attempt<3. \<forall>iv\<in>set (listed (listing attempt)).
          inv_id iv = i \<longrightarrow> inv_status iv = ''paid'' \<and> rechecked_status iv = ''paid''"
  proof (intro conjI allI)
    show "Finalize i \<notin> set (fst (reconcile listing s))"
      using fin all by fastforce
    show "Pay i ok \<notin> set (fst (reconcile listing s))" for ok
      using pay [of ok] all by (fastforce simp: seen_unpaid_def)
    have "?unpaid attempt = 0" if "attempt < 3" for attempt
      using all that by (auto simp: seen_unpaid_def filter_empty_conv)
    then have "(\<Sum>attempt<3. ?unpaid attempt) = 0" by simp
    with count have "count_list (paid_ids (fst (reconcile listing s))) i = 0" by simp
    then show "i \<notin> set (paid_ids (fst (reconcile listing s)))"
      by (simp add: count_list_0_iff)
  qed
  from counter count pay fin untouched show ?thesis by blast
qed

theorem reconcile_leaves_paid_untouched_witness:
  "invoices_paid (snd (reconcile paid_on_first_pass empty_summary)) = 1
   \<and> count_list (paid_ids (fst (reconcile paid_on_first_pass empty_summary))) ''in_1'' \<le> 1
   \<and> Finalize ''in_1'' \<notin> set (fst (reconcile always_paid empty_summary))
   \<and> Pay ''in_1'' True \<notin> set (fst (reconcile always_paid empty_summary))
   \<and> ''in_1'' \<notin> set (paid_ids (fst (reconcile always_paid empty_summary)))"
proof -
  have run: "reconcile paid_on_first_pass empty_summary =
               ([Retrieve ''in_1'', Pay ''in_1'' True, Retrieve ''in_1''],
                empty_summary\<lparr>invoices_paid := 1\<rparr>)"
    by (simp add: reconcile_def paid_on_first_pass_def open_invoice_def paid_invoice_def
        empty_summary_def rechecked_status_def eval_nat_numeral)
  have unpaid: "(\<Sum>attempt<3. length (filter (\<lambda>iv. inv_id iv = ''in_1'' \<and> seen_unpaid iv)
                                    (listed (paid_on_first_pass attempt)))) = 1"
    by (simp add: paid_on_first_pass_def open_invoice_def paid_invoice_def listed_def
        seen_unpaid_def rechecked_status_def eval_nat_numeral)
  have h: "\<forall>attempt<3. \<forall>iv\<in>set (listed (always_paid attempt)).
          inv_id iv = ''in_1'' \<longrightarrow> inv_status iv = ''paid'' \<and> rechecked_status iv = ''paid''"
    by (simp add: always_paid_def paid_invoice_def listed_def rechecked_status_def)
  from reconcile_leaves_paid_untouched [of paid_on_first_pass empty_summary "''in_1''"] unpaid
  have a: "count_list (paid_ids (fst (reconcile paid_on_first_pass empty_summary))) ''in_1'' \<le> 1"
    by simp
  from reconcile_leaves_paid_untouched [of always_paid empty_summary "''in_1''"] h
  have b: "Finalize ''in_1'' \<notin> set (fst (reconcile always_paid empty_summary))
        \<and> (\<forall>ok. Pay ''in_1'' ok \<notin> set (fst (reconcile always_paid empty_summary)))
        \<and> ''in_1'' \<notin> set (paid_ids (fst (reconcile always_paid empty_summary)))"
    by blast
  from run a b show ?thesis by simp
qed

lemma pay_listed_canceled_unpaid:
  "invoices_unpaid (snd (pay_listed_canceled invs s)) = invoices_unpaid s"
  by (induction invs arbitrary: s) (simp_all add: Let_def case_prod_unfold split: option.splits)

lemma pay_listed_active_unpaid:
  "invoices_unpaid (snd (pay_listed_active invs s)) =
     invoices_unpaid s
     + length (filter (\<lambda>iv. (inv_status iv = ''open'' \<or> inv_status iv = ''draft'')
                             \<and> pay_outcome iv \<noteq> None) invs)"
  by (induction invs arbitrary: s) (simp_all add: Let_def case_prod_unfold split: option.splits)

text \<open>
  C9, on the code. The monthly loop of the active flow adds to \<^verbatim>\<open>invoices_unpaid\<close> one for
  every invoice listed \<^verbatim>\<open>open\<close> or \<^verbatim>\<open>draft\<close> whose payment raises. The monthly loop of
  the canceled flow never changes \<^verbatim>\<open>invoices_unpaid\<close>: at an open invoice whose payment
  raises it attempts the payment and counts nothing, where the active flow, on the same
  invoice, counts the failure.
\<close>

theorem canceled_flow_drops_failed_payment:
  "invoices_unpaid (snd (pay_invoices_active listing s)) =
     invoices_unpaid s
     + length (filter (\<lambda>iv. (inv_status iv = ''open'' \<or> inv_status iv = ''draft'')
                             \<and> pay_outcome iv \<noteq> None) (listed listing))
   \<and> invoices_unpaid (snd (pay_invoices_canceled listing s)) = invoices_unpaid s
   \<and> pay_invoices_canceled (Inr [declined_invoice]) empty_summary =
       ([Pay ''in_2'' False], empty_summary)
   \<and> pay_invoices_active (Inr [declined_invoice]) empty_summary =
       ([Pay ''in_2'' False], empty_summary\<lparr>invoices_unpaid := 1\<rparr>)"
proof -
  have "invoices_unpaid (snd (pay_invoices_active listing s)) =
     invoices_unpaid s
     + length (filter (\<lambda>iv. (inv_status iv = ''open'' \<or> inv_status iv = ''draft'')
                             \<and> pay_outcome iv \<noteq> None) (listed listing))"
    by (cases listing) (simp_all add: pay_invoices_active_def listed_def pay_listed_active_unpaid)
  moreover have "invoices_unpaid (snd (pay_invoices_canceled listing s)) = invoices_unpaid s"
    by (cases listing) (simp_all add: pay_invoices_canceled_def pay_listed_canceled_unpaid)
  moreover have "pay_invoices_canceled (Inr [declined_invoice]) empty_summary =
       ([Pay ''in_2'' False], empty_summary)"
    by (simp add: pay_invoices_canceled_def declined_invoice_def)
  moreover have "pay_invoices_active (Inr [declined_invoice]) empty_summary =
       ([Pay ''in_2'' False], empty_summary\<lparr>invoices_unpaid := 1\<rparr>)"
    by (simp add: pay_invoices_active_def declined_invoice_def empty_summary_def)
  ultimately show ?thesis by simp
qed

section \<open>Properties of the orchestration\<close>

lemma and_then_raises:
  "snd a = Some (Inl e) \<Longrightarrow> snd (and_then a b) = Some (Inl e)"
  by (simp add: and_then_def)

lemma and_then_passes:
  "snd a = Some (Inr ()) \<Longrightarrow> snd (and_then a b) = snd b"
  by (simp add: and_then_def)

lemma returned_ok: "snd (returned None) = Some (Inr ())"
  by (simp add: returned_def)

lemma invoice_passes_append:
  "invoice_passes (xs @ ys) = invoice_passes xs + invoice_passes ys"
  by (induction xs rule: invoice_passes.induct) auto

lemma batch_halts:
  "i < length ens \<Longrightarrow>
   (\<forall>j<i. snd (run_scenario scen total_months (ens ! j)) = Some (Inr ())) \<Longrightarrow>
   snd (run_scenario scen total_months (ens ! i)) = Some (Inl e) \<Longrightarrow>
   fst (batch scen total_months ens) = Suc i
   \<and> snd (snd (batch scen total_months ens)) = Some (Inl e)"
proof (induction ens arbitrary: i)
  case Nil
  then show ?case by simp
next
  case (Cons en ens)
  show ?case
  proof (cases i)
    case 0
    with Cons.prems(3) show ?thesis
      by (cases "run_scenario scen total_months en") auto
  next
    case (Suc i')
    have first: "snd (run_scenario scen total_months en) = Some (Inr ())"
      using Cons.prems(2) [rule_format, of 0] Suc by simp
    have a: "i' < length ens" using Cons.prems(1) Suc by simp
    have b: "\<forall>j<i'. snd (run_scenario scen total_months (ens ! j)) = Some (Inr ())"
      using Cons.prems(2) Suc by auto
    have c: "snd (run_scenario scen total_months (ens ! i')) = Some (Inl e)"
      using Cons.prems(3) Suc by simp
    from Cons.IH [OF a b c] first Suc show ?thesis
      by (cases "run_scenario scen total_months en") (auto simp: case_prod_unfold)
  qed
qed
lemma first_advance_raises:
  assumes "sw_setup w = None"
    and "snd (advance_clock (cy_advance (sw_first w)) tc_id (sw_anchor w + 60)) = Some (Inl e)"
  shows "snd (run_linger w tc_id sub_id paid_months total_months auto_advance) = Some (Inl e)"
    and "snd (run_recover w tc_id sub_id paid_months past_due_months total_months auto_advance)
           = Some (Inl e)"
  using assms
  by (simp_all add: run_linger_def run_recover_def Let_def and_then_passes and_then_raises
      returned_ok)

lemma auto_advance_step_catches:
  "snd (auto_advance_step cw auto_advance tc_id) \<noteq> Some (Inl e)"
  by (simp add: auto_advance_step_def split: sum.splits prod.splits option.splits)

lemma and_then_snd:
  "snd (and_then a b) = (if snd a = Some (Inr ()) then snd b else snd a)"
  by (auto simp: and_then_def split: option.splits sum.splits)

lemma first_unreturned_append:
  "first_unreturned (xs @ ys) =
     (if first_unreturned xs = Some (Inr ()) then first_unreturned ys else first_unreturned xs)"
  by (induction xs) simp_all

lemma first_unreturned_raises:
  "i < length rs \<Longrightarrow> (\<forall>j<i. rs ! j = Some (Inr ())) \<Longrightarrow> rs ! i = Some (Inl e) \<Longrightarrow>
   first_unreturned rs = Some (Inl e)"
proof (induction rs arbitrary: i)
  case Nil
  then show ?case by simp
next
  case (Cons r rs)
  show ?case
  proof (cases i)
    case 0
    with Cons.prems(3) show ?thesis by simp
  next
    case (Suc i')
    have "r = Some (Inr ())" using Cons.prems(2) [rule_format, of 0] Suc by simp
    moreover have "first_unreturned rs = Some (Inl e)"
    proof (rule Cons.IH [of i'])
      show "i' < length rs" using Cons.prems(1) Suc by simp
      show "\<forall>j<i'. rs ! j = Some (Inr ())" using Cons.prems(2) Suc by auto
      show "rs ! i' = Some (Inl e)" using Cons.prems(3) Suc by simp
    qed
    ultimately show ?thesis by simp
  qed
qed

lemma cycle_step_outcome:
  "snd (cycle_step cw f tc_id sub_id anchor idx) =
     first_unreturned
       [snd (move_to_cycle cw tc_id anchor idx),
        snd (case f of Triplet \<Rightarrow> returned (cy_triplet cw)
                     | Retries \<Rightarrow> through_retries cw tc_id sub_id)]"
  by (simp add: cycle_step_def and_then_snd)

lemma cycles_outcome:
  "snd (cycles n j idx ws f tc_id sub_id anchor) =
     first_unreturned
       (concat (map (\<lambda>k. [snd (move_to_cycle (ws (j + k)) tc_id anchor (idx + int k)),
                            snd (case f of Triplet \<Rightarrow> returned (cy_triplet (ws (j + k)))
                                         | Retries \<Rightarrow> through_retries (ws (j + k)) tc_id sub_id)])
                    [0..<n]))"
proof (induction n arbitrary: j idx)
  case 0
  then show ?case by simp
next
  case (Suc n)
  let ?g = "\<lambda>j idx k. [snd (move_to_cycle (ws (j + k)) tc_id anchor (idx + int k)),
                            snd (case f of Triplet \<Rightarrow> returned (cy_triplet (ws (j + k)))
                                         | Retries \<Rightarrow> through_retries (ws (j + k)) tc_id sub_id)]"
  have shift: "?g j idx (Suc k) = ?g (Suc j) (idx + 1) k" for k
    by (cases f) (simp_all add: algebra_simps)
  have split: "concat (map (?g j idx) [0..<Suc n]) =
                 ?g j idx 0 @ concat (map (?g (Suc j) (idx + 1)) [0..<n])"
    unfolding map_upt_Suc shift by simp
  have here: "snd (cycle_step (ws j) f tc_id sub_id anchor idx) = first_unreturned (?g j idx 0)"
    by (cases f) (simp_all add: cycle_step_outcome)
  have "snd (cycles (Suc n) j idx ws f tc_id sub_id anchor) =
          (if snd (cycle_step (ws j) f tc_id sub_id anchor idx) = Some (Inr ())
           then snd (cycles n (Suc j) (idx + 1) ws f tc_id sub_id anchor)
           else snd (cycle_step (ws j) f tc_id sub_id anchor idx))"
    by (simp add: and_then_snd)
  also have "\<dots> = (if first_unreturned (?g j idx 0) = Some (Inr ())
                  then first_unreturned (concat (map (?g (Suc j) (idx + 1)) [0..<n]))
                  else first_unreturned (?g j idx 0))"
    unfolding here Suc.IH ..
  also have "\<dots> = first_unreturned (concat (map (?g j idx) [0..<Suc n]))"
    unfolding split first_unreturned_append ..
  finally show ?case .
qed


lemma run_linger_outcome:
  "snd (run_linger w tc_id sub_id paid_months total_months auto_advance) =
     first_unreturned
       ([snd (returned (sw_setup w)),
         snd (advance_clock (cy_advance (sw_first w)) tc_id (sw_anchor w + 60)),
         snd (returned (cy_triplet (sw_first w)))]
        @ concat (map (\<lambda>k. [snd (move_to_cycle (sw_paid w k) tc_id (sw_anchor w) (1 + int k)),
                              snd (returned (cy_triplet (sw_paid w k)))])
                      [0..<nat (paid_months - 1)])
        @ [snd (returned (sw_switch w)),
           snd (move_to_cycle (sw_fail w) tc_id (sw_anchor w) paid_months),
           snd (returned (cy_triplet (sw_fail w))),
           snd (through_retries (sw_fail w) tc_id sub_id)]
        @ concat (map (\<lambda>k. [snd (move_to_cycle (sw_past_due w k) tc_id (sw_anchor w)
                                     (paid_months + 1 + int k)),
                              snd (through_retries (sw_past_due w k) tc_id sub_id)])
                      [0..<nat (total_months - (paid_months + 1))])
        @ [snd (auto_advance_step (sw_auto w) auto_advance tc_id)])"
  unfolding run_linger_def and_then_snd cycles_outcome
  by (simp add: first_unreturned_append)

lemma run_recover_outcome:
  "snd (run_recover w tc_id sub_id paid_months past_due_months total_months auto_advance) =
     first_unreturned
       ([snd (returned (sw_setup w)),
         snd (advance_clock (cy_advance (sw_first w)) tc_id (sw_anchor w + 60)),
         snd (returned (cy_triplet (sw_first w)))]
        @ concat (map (\<lambda>k. [snd (move_to_cycle (sw_paid w k) tc_id (sw_anchor w) (1 + int k)),
                              snd (returned (cy_triplet (sw_paid w k)))])
                      [0..<nat (paid_months - 1)])
        @ [snd (returned (sw_switch w)),
           snd (move_to_cycle (sw_fail w) tc_id (sw_anchor w) paid_months),
           snd (returned (cy_triplet (sw_fail w))),
           snd (through_retries (sw_fail w) tc_id sub_id)]
        @ concat (map (\<lambda>k. [snd (move_to_cycle (sw_past_due w k) tc_id (sw_anchor w)
                                     (paid_months + 1 + int k)),
                              snd (through_retries (sw_past_due w k) tc_id sub_id)])
                      [0..<nat ((if past_due_months \<le> 0 then 1 else past_due_months) - 1)])
        @ [snd (move_to_cycle (sw_recovery w) tc_id (sw_anchor w)
                  (paid_months
                   + int (nat ((if past_due_months \<le> 0 then 1 else past_due_months) - 1)) + 1)),
           snd (returned (cy_triplet (sw_recovery w)))]
        @ concat (map (\<lambda>k. [snd (move_to_cycle (sw_later w k) tc_id (sw_anchor w)
                                     (paid_months
                                      + int (nat ((if past_due_months \<le> 0 then 1
                                                   else past_due_months) - 1)) + 1 + 1 + int k)),
                              snd (returned (cy_triplet (sw_later w k)))])
                      [0..<nat (total_months
                                - (paid_months
                                   + (if past_due_months \<le> 0 then 1 else past_due_months) + 1))])
        @ [snd (auto_advance_step (sw_auto w) auto_advance tc_id)])"
proof -
  define pd where "pd = (if past_due_months \<le> 0 then 1 else past_due_months)"
  define lingering where "lingering = nat (pd - 1)"
  define later where "later = nat (total_months - (paid_months + pd + 1))"
  show ?thesis
    unfolding run_recover_def Let_def and_then_snd cycles_outcome pd_def [symmetric]
    unfolding lingering_def [symmetric] later_def [symmetric]
    by (simp add: first_unreturned_append)
qed

lemma move_to_cycle_advance:
  "cy_clock cw = Inr c \<Longrightarrow>
   \<exists>t. next_cycle_after anchor idx (tc_frozen_time c) 2592000 = Inr t
       \<and> move_to_cycle cw tc_id anchor idx = advance_clock (cy_advance cw) tc_id t"
  by (simp add: move_to_cycle_def next_cycle_after_def Let_def)

lemma move_to_cycle_unreachable:
  "cy_clock cw = Inl e \<Longrightarrow> move_to_cycle cw tc_id anchor idx = ([], Some (Inl e))"
  by (simp add: move_to_cycle_def)

lemma retry_rounds_raises:
  "i < n \<Longrightarrow> (\<forall>j<i. snd (retry_round (world (idx + j)) tc_id b) = Next) \<Longrightarrow>
   snd (retry_round (world (idx + i)) tc_id b) = Raised e \<Longrightarrow>
   fst (retry_rounds n idx world tc_id b) = Suc i
   \<and> snd (snd (retry_rounds n idx world tc_id b)) = Some (Inl e)"
proof (induction i arbitrary: n idx)
  case 0
  then obtain n' where "n = Suc n'" by (cases n) auto
  with 0 show ?case by (auto split: prod.splits flow.splits)
next
  case (Suc i)
  then obtain n' where n: "n = Suc n'" by (cases n) auto
  have here: "snd (retry_round (world idx) tc_id b) = Next"
    using Suc.prems(2) [rule_format, of 0] by simp
  have a: "i < n'" using Suc.prems(1) n by simp
  have b: "\<forall>j<i. snd (retry_round (world (Suc idx + j)) tc_id b) = Next"
    using Suc.prems(2) by auto
  have c: "snd (retry_round (world (Suc idx + i)) tc_id b) = Raised e"
    using Suc.prems(3) by simp
  from Suc.IH [OF a b c] here n show ?case
    by (auto split: prod.splits flow.splits)
qed

lemma retry_round_raises:
  assumes "rw_subscription rw = Inr (Some li)" and "li_status li \<noteq> Some ''paid''"
    and "rw_clock rw = Inr c"
    and "snd (advance_clock (rw_advance rw) tc_id
                (if li_next_payment_attempt li \<noteq> None \<and> li_next_payment_attempt li \<noteq> Some 0
                 then (if the (li_next_payment_attempt li) + b \<le> tc_frozen_time c
                       then tc_frozen_time c + 1
                       else the (li_next_payment_attempt li) + b)
                 else tc_frozen_time c + 24 * 3600)) = Some (Inl e)"
  shows "snd (retry_round rw tc_id b) = Raised e"
proof (cases "li_next_payment_attempt li \<noteq> None \<and> li_next_payment_attempt li \<noteq> Some 0")
  case True
  have "snd (advance_clock (rw_advance rw) tc_id
               (if the (li_next_payment_attempt li) + b \<le> tc_frozen_time c
                then tc_frozen_time c + 1
                else the (li_next_payment_attempt li) + b)) = Some (Inl e)"
    using assms(4) unfolding if_P [OF True] .
  with True assms(1-3) show ?thesis
    by (cases "advance_clock (rw_advance rw) tc_id
               (if the (li_next_payment_attempt li) + b \<le> tc_frozen_time c
                then tc_frozen_time c + 1
                else the (li_next_payment_attempt li) + b)")
       (simp add: retry_round_def Let_def)
next
  case False
  have "snd (advance_clock (rw_advance rw) tc_id (tc_frozen_time c + 24 * 3600)) = Some (Inl e)"
    using assms(4) unfolding if_not_P [OF False] .
  with False assms(1-3) show ?thesis
    by (cases "advance_clock (rw_advance rw) tc_id (tc_frozen_time c + 24 * 3600)")
       (auto simp: retry_round_def Let_def)
qed

lemma first_unreturned_returns:
  "first_unreturned rs = Some (Inr ()) \<longleftrightarrow> (\<forall>r\<in>set rs. r = Some (Inr ()))"
  by (induction rs) auto

lemma warnings_append: "warnings (xs @ ys) = warnings xs @ warnings ys"
  by (induction xs rule: warnings.induct) auto


lemma active_months_events:
  "(\<forall>j<n. snd (advance_test_clock (mw_module (world (m2 + j))) clock_id
                 (start_ts + 2592000 * int (month + (m2 + j)))) \<noteq> None) \<Longrightarrow>
   \<exists>evs s'. active_months n m2 world clock_id start_ts month s = Some (evs, s')
             \<and> invoice_passes evs = n
             \<and> warnings evs =
                 concat (map (\<lambda>j. case snd (advance_test_clock (mw_module (world (m2 + j))) clock_id
                                               (start_ts + 2592000 * int (month + (m2 + j)))) of
                                      Some (Inl e) \<Rightarrow> [(start_ts + 2592000 * int (month + (m2 + j)), e)]
                                    | Some (Inr tc) \<Rightarrow> []
                                    | None \<Rightarrow> [])
                             [0..<n])"
proof (induction n arbitrary: m2 s)
  case 0
  then show ?case by simp
next
  case (Suc n)
  let ?w = "\<lambda>m2 j. case snd (advance_test_clock (mw_module (world (m2 + j))) clock_id
                                               (start_ts + 2592000 * int (month + (m2 + j)))) of
                                      Some (Inl e) \<Rightarrow> [(start_ts + 2592000 * int (month + (m2 + j)), e)]
                                    | Some (Inr tc) \<Rightarrow> []
                                    | None \<Rightarrow> []"
  obtain cs r where adv: "advance_test_clock (mw_module (world m2)) clock_id
                 (start_ts + 2592000 * int (month + m2)) = (cs, r)"
    by (cases "advance_test_clock (mw_module (world m2)) clock_id
                 (start_ts + 2592000 * int (month + m2))") auto
  from Suc.prems [rule_format, of 0] adv obtain res where r: "r = Some res" by auto
  obtain ics s1 where pay: "pay_invoices_active (mw_listing (world m2)) s = (ics, s1)"
    by (cases "pay_invoices_active (mw_listing (world m2)) s") auto
  have "\<forall>j<n. snd (advance_test_clock (mw_module (world (Suc m2 + j))) clock_id
                 (start_ts + 2592000 * int (month + (Suc m2 + j)))) \<noteq> None"
  proof (intro allI impI)
    fix j assume "j < n"
    then have "Suc j < Suc n" by simp
    from Suc.prems [rule_format, OF this]
    show "snd (advance_test_clock (mw_module (world (Suc m2 + j))) clock_id
                 (start_ts + 2592000 * int (month + (Suc m2 + j)))) \<noteq> None"
      by simp
  qed
  from Suc.IH [OF this, of s1] obtain evs s' where
    rest: "active_months n (Suc m2) world clock_id start_ts month s1 = Some (evs, s')"
    and n: "invoice_passes evs = n"
    and ws: "warnings evs = concat (map (?w (Suc m2)) [0..<n])" by blast
  have shift: "?w m2 (Suc j) = ?w (Suc m2) j" for j
      unfolding add_Suc_right add_Suc ..
  have split: "concat (map (?w m2) [0..<Suc n]) = ?w m2 0 @ concat (map (?w (Suc m2)) [0..<n])"
    unfolding map_upt_Suc shift by simp
  have here: "?w m2 0 = (case res of Inl e \<Rightarrow> [(start_ts + 2592000 * int (month + m2), e)]
                                   | Inr tc \<Rightarrow> [])"
    using adv r by (cases res) simp_all
  have run: "active_months (Suc n) m2 world clock_id start_ts month s =
          Some (ClockCalls cs
                 # (case res of Inl e \<Rightarrow> [AdvanceWarning (start_ts + 2592000 * int (month + m2)) e]
                              | Inr tc \<Rightarrow> [])
                 @ InvoiceCalls ics # evs, s')"
    using adv r pay rest by (cases res) (simp_all add: Let_def)
  have "invoice_passes (ClockCalls cs
                 # (case res of Inl e \<Rightarrow> [AdvanceWarning (start_ts + 2592000 * int (month + m2)) e]
                              | Inr tc \<Rightarrow> [])
                 @ InvoiceCalls ics # evs) = Suc n"
    using n by (cases res) simp_all
  moreover have "warnings (ClockCalls cs
                 # (case res of Inl e \<Rightarrow> [AdvanceWarning (start_ts + 2592000 * int (month + m2)) e]
                              | Inr tc \<Rightarrow> [])
                 @ InvoiceCalls ics # evs) = concat (map (?w m2) [0..<Suc n])"
    unfolding split here using ws by (cases res) simp_all
  ultimately show ?case using run by blast
qed

lemma canceled_months_events:
  "int m2 < cancel_after \<Longrightarrow>
   (\<forall>j<min n (nat (cancel_after - int m2)).
       snd (advance_test_clock (mw_module (world (m2 + j))) clock_id
                 (start_ts + 2592000 * int (month + (m2 + j)))) \<noteq> None) \<Longrightarrow>
   \<exists>evs s'. canceled_months n m2 world clock_id start_ts month cancel_after remote s = Some (evs, s')
             \<and> invoice_passes evs = min n (nat (cancel_after - int m2))
             \<and> warnings evs =
                 concat (map (\<lambda>j. case snd (advance_test_clock (mw_module (world (m2 + j))) clock_id
                                               (start_ts + 2592000 * int (month + (m2 + j)))) of
                                      Some (Inl e) \<Rightarrow> [(start_ts + 2592000 * int (month + (m2 + j)), e)]
                                    | Some (Inr tc) \<Rightarrow> []
                                    | None \<Rightarrow> [])
                             [0..<min n (nat (cancel_after - int m2))])"
proof (induction n arbitrary: m2 s)
  case 0
  then show ?case by simp
next
  case (Suc n)
  let ?w = "\<lambda>m2 j. case snd (advance_test_clock (mw_module (world (m2 + j))) clock_id
                                               (start_ts + 2592000 * int (month + (m2 + j)))) of
                                      Some (Inl e) \<Rightarrow> [(start_ts + 2592000 * int (month + (m2 + j)), e)]
                                    | Some (Inr tc) \<Rightarrow> []
                                    | None \<Rightarrow> []"
  let ?warned = "\<lambda>res. case res of Inl e \<Rightarrow> [AdvanceWarning (start_ts + 2592000 * int (month + m2)) e]
                              | Inr tc \<Rightarrow> []"
  obtain cs r where adv: "advance_test_clock (mw_module (world m2)) clock_id
                 (start_ts + 2592000 * int (month + m2)) = (cs, r)"
    by (cases "advance_test_clock (mw_module (world m2)) clock_id
                 (start_ts + 2592000 * int (month + m2))") auto
  have pos: "0 < min (Suc n) (nat (cancel_after - int m2))" using Suc.prems(1) by simp
  from Suc.prems(2) [rule_format, OF pos] adv obtain res where r: "r = Some res" by auto
  obtain ics s1 where pay: "pay_invoices_canceled (mw_listing (world m2)) s = (ics, s1)"
    by (cases "pay_invoices_canceled (mw_listing (world m2)) s") auto
  have here: "?w m2 0 = (case res of Inl e \<Rightarrow> [(start_ts + 2592000 * int (month + m2), e)]
                                   | Inr tc \<Rightarrow> [])"
    using adv r by (cases res) simp_all
  show ?case
  proof (cases "int (m2 + 1) \<ge> cancel_after")
    case True
    with Suc.prems(1) have one: "min (Suc n) (nat (cancel_after - int m2)) = 1" by simp
    have run: "canceled_months (Suc n) m2 world clock_id start_ts month cancel_after remote s =
          Some (ClockCalls cs # ?warned res
                 @ [InvoiceCalls ics, Cancellation (cancel_subscription_retry remote)], s1)"
      using adv r pay True by (cases res) (simp_all add: Let_def)
    have "invoice_passes (ClockCalls cs # ?warned res
                 @ [InvoiceCalls ics, Cancellation (cancel_subscription_retry remote)]) = 1"
      by (cases res) simp_all
    moreover have "warnings (ClockCalls cs # ?warned res
                 @ [InvoiceCalls ics, Cancellation (cancel_subscription_retry remote)])
                 = concat (map (?w m2) [0..<1])"
      using here by (cases res) simp_all
    ultimately show ?thesis using run unfolding one by blast
  next
    case False
    then have lt: "int (Suc m2) < cancel_after" by simp
    have cnt: "min (Suc n) (nat (cancel_after - int m2))
                 = Suc (min n (nat (cancel_after - int (Suc m2))))"
    proof -
      from lt have "nat (cancel_after - int m2) = Suc (nat (cancel_after - int (Suc m2)))"
        by simp
      then show ?thesis by simp
    qed
    have "\<forall>j<min n (nat (cancel_after - int (Suc m2))).
            snd (advance_test_clock (mw_module (world (Suc m2 + j))) clock_id
                 (start_ts + 2592000 * int (month + (Suc m2 + j)))) \<noteq> None"
    proof (intro allI impI)
      fix j assume "j < min n (nat (cancel_after - int (Suc m2)))"
      then have "Suc j < min (Suc n) (nat (cancel_after - int m2))" unfolding cnt by simp
      from Suc.prems(2) [rule_format, OF this]
      show "snd (advance_test_clock (mw_module (world (Suc m2 + j))) clock_id
                 (start_ts + 2592000 * int (month + (Suc m2 + j)))) \<noteq> None"
        by simp
    qed
    from Suc.IH [OF lt this, of s1] obtain evs s' where
      rest: "canceled_months n (Suc m2) world clock_id start_ts month cancel_after remote s1
               = Some (evs, s')"
      and n: "invoice_passes evs = min n (nat (cancel_after - int (Suc m2)))"
      and ws: "warnings evs = concat (map (?w (Suc m2)) [0..<min n (nat (cancel_after - int (Suc m2)))])"
      by blast
    have shift: "?w m2 (Suc j) = ?w (Suc m2) j" for j
      unfolding add_Suc_right add_Suc ..
    have split: "concat (map (?w m2) [0..<Suc k]) = ?w m2 0 @ concat (map (?w (Suc m2)) [0..<k])" for k
      unfolding map_upt_Suc shift by simp
    have run: "canceled_months (Suc n) m2 world clock_id start_ts month cancel_after remote s =
          Some (ClockCalls cs # ?warned res @ InvoiceCalls ics # evs, s')"
      using adv r pay rest False by (cases res) (simp_all add: Let_def)
    have "invoice_passes (ClockCalls cs # ?warned res @ InvoiceCalls ics # evs)
            = Suc (min n (nat (cancel_after - int (Suc m2))))"
      using n by (cases res) simp_all
    moreover have "warnings (ClockCalls cs # ?warned res @ InvoiceCalls ics # evs)
            = concat (map (?w m2) [0..<Suc (min n (nat (cancel_after - int (Suc m2))))])"
      unfolding split here using ws by (cases res) simp_all
    ultimately show ?thesis using run unfolding cnt by blast
  qed
qed

text \<open>
  C8, as the code has it. In \<^verbatim>\<open>generate_date.py\<close> a clock advance that raises is caught
  where it is called, in the month loop of the active flow and in that of the canceled
  flow: whenever each advance comes to an end, the loop returns, having run the invoice
  pass of every month (in the canceled flow, of every month up to the cancellation) and
  having printed, for exactly the months whose advance raised, a warning with the time
  and the exception; no exception of an advance leaves the loop, and the run goes on.
  In \<^verbatim>\<open>generate_past_due_new.py\<close> no advance of a scenario is inside a \<^verbatim>\<open>try\<close>, the
  closing auto-advance apart, which never raises: \<^verbatim>\<open>run_linger\<close> and \<^verbatim>\<open>run_recover\<close>
  end as the first of their statements that does not return (the first advance, the move
  to the cycle of every paid, failing, past-due, recovery and later month, and
  \<^verbatim>\<open>advance_through_retries\<close>), and return only when all of them do. The move to a
  cycle is the \<^verbatim>\<open>advance_clock\<close> call for the time \<open>next_cycle_after\<close> gives, and raises
  what the \<^verbatim>\<open>retrieve\<close> before it raises; \<^verbatim>\<open>advance_through_retries\<close> raises what the
  first of its rounds that does not go on raises, and a round raises what its
  \<^verbatim>\<open>advance_clock\<close> call raises. The batch loop of \<^verbatim>\<open>main\<close> ends with the exception of
  the first scenario that raises, without beginning the entities after it.
\<close>

theorem advance_failure_scope:
  "((\<forall>j<n. snd (advance_test_clock (mw_module (world (m2 + j))) clock_id
                   (start_ts + 2592000 * int (month + (m2 + j)))) \<noteq> None) \<longrightarrow>
      (\<exists>evs s'. active_months n m2 world clock_id start_ts month s = Some (evs, s')
                 \<and> invoice_passes evs = n
                 \<and> warnings evs =
                     concat (map (\<lambda>j. case snd (advance_test_clock (mw_module (world (m2 + j))) clock_id
                                               (start_ts + 2592000 * int (month + (m2 + j)))) of
                                      Some (Inl e) \<Rightarrow> [(start_ts + 2592000 * int (month + (m2 + j)), e)]
                                    | Some (Inr tc) \<Rightarrow> []
                                    | None \<Rightarrow> [])
                             [0..<n])))
   \<and> (int m2 < cancel_after
        \<and> (\<forall>j<min n (nat (cancel_after - int m2)).
              snd (advance_test_clock (mw_module (world (m2 + j))) clock_id
                     (start_ts + 2592000 * int (month + (m2 + j)))) \<noteq> None) \<longrightarrow>
      (\<exists>evs s'. canceled_months n m2 world clock_id start_ts month cancel_after remote s
                   = Some (evs, s')
                 \<and> invoice_passes evs = min n (nat (cancel_after - int m2))
                 \<and> warnings evs =
                     concat (map (\<lambda>j. case snd (advance_test_clock (mw_module (world (m2 + j))) clock_id
                                               (start_ts + 2592000 * int (month + (m2 + j)))) of
                                      Some (Inl e) \<Rightarrow> [(start_ts + 2592000 * int (month + (m2 + j)), e)]
                                    | Some (Inr tc) \<Rightarrow> []
                                    | None \<Rightarrow> [])
                             [0..<min n (nat (cancel_after - int m2))])))
   \<and> (i < length ens
        \<and> (\<forall>j<i. snd (run_scenario scen total_months (ens ! j)) = Some (Inr ()))
        \<and> snd (run_scenario scen total_months (ens ! i)) = Some (Inl e) \<longrightarrow>
        fst (batch scen total_months ens) = Suc i
        \<and> snd (snd (batch scen total_months ens)) = Some (Inl e))
   \<and> (sw_setup w = None
        \<and> snd (advance_clock (cy_advance (sw_first w)) tc_id (sw_anchor w + 60)) = Some (Inl e') \<longrightarrow>
        snd (run_linger w tc_id sub_id paid_months total_months auto_advance) = Some (Inl e')
        \<and> snd (run_recover w tc_id sub_id paid_months past_due_months total_months auto_advance)
            = Some (Inl e'))
   \<and> snd (run_linger w tc_id sub_id paid_months total_months auto_advance) =
       first_unreturned
         ([snd (returned (sw_setup w)),
           snd (advance_clock (cy_advance (sw_first w)) tc_id (sw_anchor w + 60)),
           snd (returned (cy_triplet (sw_first w)))]
          @ concat (map (\<lambda>k. [snd (move_to_cycle (sw_paid w k) tc_id (sw_anchor w) (1 + int k)),
                                snd (returned (cy_triplet (sw_paid w k)))])
                        [0..<nat (paid_months - 1)])
          @ [snd (returned (sw_switch w)),
             snd (move_to_cycle (sw_fail w) tc_id (sw_anchor w) paid_months),
             snd (returned (cy_triplet (sw_fail w))),
             snd (through_retries (sw_fail w) tc_id sub_id)]
          @ concat (map (\<lambda>k. [snd (move_to_cycle (sw_past_due w k) tc_id (sw_anchor w)
                                       (paid_months + 1 + int k)),
                                snd (through_retries (sw_past_due w k) tc_id sub_id)])
                        [0..<nat (total_months - (paid_months + 1))])
          @ [snd (auto_advance_step (sw_auto w) auto_advance tc_id)])
   \<and> snd (run_recover w tc_id sub_id paid_months past_due_months total_months auto_advance) =
       first_unreturned
         ([snd (returned (sw_setup w)),
           snd (advance_clock (cy_advance (sw_first w)) tc_id (sw_anchor w + 60)),
           snd (returned (cy_triplet (sw_first w)))]
          @ concat (map (\<lambda>k. [snd (move_to_cycle (sw_paid w k) tc_id (sw_anchor w) (1 + int k)),
                                snd (returned (cy_triplet (sw_paid w k)))])
                        [0..<nat (paid_months - 1)])
          @ [snd (returned (sw_switch w)),
             snd (move_to_cycle (sw_fail w) tc_id (sw_anchor w) paid_months),
             snd (returned (cy_triplet (sw_fail w))),
             snd (through_retries (sw_fail w) tc_id sub_id)]
          @ concat (map (\<lambda>k. [snd (move_to_cycle (sw_past_due w k) tc_id (sw_anchor w)
                                       (paid_months + 1 + int k)),
                                snd (through_retries (sw_past_due w k) tc_id sub_id)])
                        [0..<nat ((if past_due_months \<le> 0 then 1 else past_due_months) - 1)])
          @ [snd (move_to_cycle (sw_recovery w) tc_id (sw_anchor w)
                    (paid_months
                     + int (nat ((if past_due_months \<le> 0 then 1 else past_due_months) - 1)) + 1)),
             snd (returned (cy_triplet (sw_recovery w)))]
          @ concat (map (\<lambda>k. [snd (move_to_cycle (sw_later w k) tc_id (sw_anchor w)
                                       (paid_months
                                        + int (nat ((if past_due_months \<le> 0 then 1
                                                     else past_due_months) - 1)) + 1 + 1 + int k)),
                                snd (returned (cy_triplet (sw_later w k)))])
                        [0..<nat (total_months
                                  - (paid_months
                                     + (if past_due_months \<le> 0 then 1 else past_due_months) + 1))])
          @ [snd (auto_advance_step (sw_auto w) auto_advance tc_id)])
   \<and> (first_unreturned rs = Some (Inr ()) \<longleftrightarrow> (\<forall>r\<in>set rs. r = Some (Inr ())))
   \<and> (p < length rs \<and> (\<forall>j<p. rs ! j = Some (Inr ())) \<and> rs ! p = Some (Inl e1) \<longrightarrow>
        first_unreturned rs = Some (Inl e1))
   \<and> (cy_clock cw = Inr c \<longrightarrow>
        (\<exists>t. next_cycle_after anchor idx (tc_frozen_time c) 2592000 = Inr t
             \<and> move_to_cycle cw tc_id anchor idx = advance_clock (cy_advance cw) tc_id t))
   \<and> (cy_clock cw = Inl e2 \<longrightarrow> move_to_cycle cw tc_id anchor idx = ([], Some (Inl e2)))
   \<and> (q < 10 \<and> (\<forall>j<q. snd (retry_round (cy_retries cw j) tc_id 60) = Next)
        \<and> snd (retry_round (cy_retries cw q) tc_id 60) = Raised e3 \<longrightarrow>
        snd (through_retries cw tc_id sub_id) = Some (Inl e3))
   \<and> (rw_subscription rw = Inr (Some li) \<and> li_status li \<noteq> Some ''paid''
        \<and> rw_clock rw = Inr c'
        \<and> snd (advance_clock (rw_advance rw) tc_id
                 (if li_next_payment_attempt li \<noteq> None \<and> li_next_payment_attempt li \<noteq> Some 0
                  then (if the (li_next_payment_attempt li) + b \<le> tc_frozen_time c'
                        then tc_frozen_time c' + 1
                        else the (li_next_payment_attempt li) + b)
                  else tc_frozen_time c' + 24 * 3600)) = Some (Inl e4) \<longrightarrow>
        snd (retry_round rw tc_id b) = Raised e4)
   \<and> snd (auto_advance_step cw auto_advance tc_id) \<noteq> Some (Inl e5)"
proof -
  have months: "(\<forall>j<n. snd (advance_test_clock (mw_module (world (m2 + j))) clock_id
                   (start_ts + 2592000 * int (month + (m2 + j)))) \<noteq> None) \<longrightarrow>
      (\<exists>evs s'. active_months n m2 world clock_id start_ts month s = Some (evs, s')
                 \<and> invoice_passes evs = n
                 \<and> warnings evs =
                     concat (map (\<lambda>j. case snd (advance_test_clock (mw_module (world (m2 + j))) clock_id
                                               (start_ts + 2592000 * int (month + (m2 + j)))) of
                                      Some (Inl e) \<Rightarrow> [(start_ts + 2592000 * int (month + (m2 + j)), e)]
                                    | Some (Inr tc) \<Rightarrow> []
                                    | None \<Rightarrow> [])
                             [0..<n]))"
    by (intro impI active_months_events)
  have canceled: "int m2 < cancel_after
        \<and> (\<forall>j<min n (nat (cancel_after - int m2)).
              snd (advance_test_clock (mw_module (world (m2 + j))) clock_id
                     (start_ts + 2592000 * int (month + (m2 + j)))) \<noteq> None) \<longrightarrow>
      (\<exists>evs s'. canceled_months n m2 world clock_id start_ts month cancel_after remote s
                   = Some (evs, s')
                 \<and> invoice_passes evs = min n (nat (cancel_after - int m2))
                 \<and> warnings evs =
                     concat (map (\<lambda>j. case snd (advance_test_clock (mw_module (world (m2 + j))) clock_id
                                               (start_ts + 2592000 * int (month + (m2 + j)))) of
                                      Some (Inl e) \<Rightarrow> [(start_ts + 2592000 * int (month + (m2 + j)), e)]
                                    | Some (Inr tc) \<Rightarrow> []
                                    | None \<Rightarrow> [])
                             [0..<min n (nat (cancel_after - int m2))]))"
  proof
    assume h: "int m2 < cancel_after
        \<and> (\<forall>j<min n (nat (cancel_after - int m2)).
              snd (advance_test_clock (mw_module (world (m2 + j))) clock_id
                     (start_ts + 2592000 * int (month + (m2 + j)))) \<noteq> None)"
    then have a: "int m2 < cancel_after"
      and b: "\<forall>j<min n (nat (cancel_after - int m2)).
              snd (advance_test_clock (mw_module (world (m2 + j))) clock_id
                     (start_ts + 2592000 * int (month + (m2 + j)))) \<noteq> None"
      by simp_all
    from a b show "\<exists>evs s'. canceled_months n m2 world clock_id start_ts month cancel_after remote s
                   = Some (evs, s')
                 \<and> invoice_passes evs = min n (nat (cancel_after - int m2))
                 \<and> warnings evs =
                     concat (map (\<lambda>j. case snd (advance_test_clock (mw_module (world (m2 + j))) clock_id
                                               (start_ts + 2592000 * int (month + (m2 + j)))) of
                                      Some (Inl e) \<Rightarrow> [(start_ts + 2592000 * int (month + (m2 + j)), e)]
                                    | Some (Inr tc) \<Rightarrow> []
                                    | None \<Rightarrow> [])
                             [0..<min n (nat (cancel_after - int m2))])"
      by (rule canceled_months_events)
  qed
  have halts: "i < length ens
        \<and> (\<forall>j<i. snd (run_scenario scen total_months (ens ! j)) = Some (Inr ()))
        \<and> snd (run_scenario scen total_months (ens ! i)) = Some (Inl e) \<longrightarrow>
        fst (batch scen total_months ens) = Suc i
        \<and> snd (snd (batch scen total_months ens)) = Some (Inl e)"
    using batch_halts [where i = i and ens = ens and scen = scen and total_months = total_months and e = e]
    by blast
  have first: "sw_setup w = None
        \<and> snd (advance_clock (cy_advance (sw_first w)) tc_id (sw_anchor w + 60)) = Some (Inl e') \<longrightarrow>
        snd (run_linger w tc_id sub_id paid_months total_months auto_advance) = Some (Inl e')
        \<and> snd (run_recover w tc_id sub_id paid_months past_due_months total_months auto_advance)
            = Some (Inl e')"
    using first_advance_raises(1)
        [where w = w and tc_id = tc_id and e = e' and sub_id = sub_id
           and paid_months = paid_months and total_months = total_months
           and auto_advance = auto_advance]
      first_advance_raises(2)
        [where w = w and tc_id = tc_id and e = e' and sub_id = sub_id
           and paid_months = paid_months and total_months = total_months
           and auto_advance = auto_advance and past_due_months = past_due_months]
    by blast
  note linger = run_linger_outcome
      [where w = w and tc_id = tc_id and sub_id = sub_id and paid_months = paid_months
         and total_months = total_months and auto_advance = auto_advance]
  note recover = run_recover_outcome
      [where w = w and tc_id = tc_id and sub_id = sub_id and paid_months = paid_months
         and past_due_months = past_due_months and total_months = total_months
         and auto_advance = auto_advance]
  have all_return: "first_unreturned rs = Some (Inr ()) \<longleftrightarrow> (\<forall>r\<in>set rs. r = Some (Inr ()))"
    by (rule first_unreturned_returns)
  have one_raises: "p < length rs \<and> (\<forall>j<p. rs ! j = Some (Inr ())) \<and> rs ! p = Some (Inl e1) \<longrightarrow>
        first_unreturned rs = Some (Inl e1)"
    using first_unreturned_raises [where i = p and rs = rs and e = e1] by blast
  have move: "cy_clock cw = Inr c \<longrightarrow>
        (\<exists>t. next_cycle_after anchor idx (tc_frozen_time c) 2592000 = Inr t
             \<and> move_to_cycle cw tc_id anchor idx = advance_clock (cy_advance cw) tc_id t)"
    by (intro impI move_to_cycle_advance)
  have unreachable: "cy_clock cw = Inl e2 \<longrightarrow> move_to_cycle cw tc_id anchor idx = ([], Some (Inl e2))"
    by (intro impI move_to_cycle_unreachable)
  have retries: "q < 10 \<and> (\<forall>j<q. snd (retry_round (cy_retries cw j) tc_id 60) = Next)
        \<and> snd (retry_round (cy_retries cw q) tc_id 60) = Raised e3 \<longrightarrow>
        snd (through_retries cw tc_id sub_id) = Some (Inl e3)"
    using retry_rounds_raises
        [where i = q and n = 10 and world = "cy_retries cw" and idx = 0 and tc_id = tc_id
           and b = 60 and e = e3]
    by (simp add: through_retries_def advance_through_retries_def)
  have round: "rw_subscription rw = Inr (Some li) \<and> li_status li \<noteq> Some ''paid''
        \<and> rw_clock rw = Inr c'
        \<and> snd (advance_clock (rw_advance rw) tc_id
                 (if li_next_payment_attempt li \<noteq> None \<and> li_next_payment_attempt li \<noteq> Some 0
                  then (if the (li_next_payment_attempt li) + b \<le> tc_frozen_time c'
                        then tc_frozen_time c' + 1
                        else the (li_next_payment_attempt li) + b)
                  else tc_frozen_time c' + 24 * 3600)) = Some (Inl e4) \<longrightarrow>
        snd (retry_round rw tc_id b) = Raised e4"
    using retry_round_raises
        [where rw = rw and li = li and c = c' and tc_id = tc_id and b = b and e = e4]
    by blast
  have auto: "snd (auto_advance_step cw auto_advance tc_id) \<noteq> Some (Inl e5)"
    by (rule auto_advance_step_catches)
  show ?thesis
    by (intro conjI months canceled halts first linger recover all_return one_raises move
        unreachable retries round auto)
qed

lemma throttled_module_raises:
  "snd (advance_test_clock throttled_module clock_id t) = Some (Inl (RuntimeError clock_id 8))"
  by (simp add: advance_test_clock_def throttled_module_def Let_def eval_nat_numeral)

lemma throttled_first_ends:
  "j < 2 \<Longrightarrow>
   snd (advance_test_clock (mw_module (throttled_first (0 + j))) ''clock_1''
          (1735689600 + 2592000 * int (0 + (0 + j)))) \<noteq> None"
proof -
  assume "j < 2"
  then consider "j = 0" | "j = 1" by linarith
  then show ?thesis
  proof cases
    case 1
    then show ?thesis by (simp add: throttled_first_def throttled_module_raises)
  next
    case 2
    have "snd (advance_test_clock (mw_module (throttled_first (0 + 1))) ''clock_1''
          (1735689600 + 2592000 * int (0 + (0 + 1)))) = Some (Inr (stripe_clock 1738281600 ''ready''))"
      by code_simp
    with 2 show ?thesis by simp
  qed
qed

theorem advance_failure_scope_witness:
  "(\<exists>evs s'. active_months 2 0 throttled_first ''clock_1'' 1735689600 0 empty_summary = Some (evs, s')
              \<and> invoice_passes evs = 2
              \<and> warnings evs = [(1735689600, RuntimeError ''clock_1'' 8)])
   \<and> (\<exists>evs s'. canceled_months 3 0 throttled_first ''clock_1'' 1735689600 0 2 cancels_at_once
                  empty_summary = Some (evs, s')
              \<and> invoice_passes evs = 2
              \<and> warnings evs = [(1735689600, RuntimeError ''clock_1'' 8)])
   \<and> fst (batch Linger 3 [calm_entity ''clock_1'', timeout_entity ''clock_2'', calm_entity ''clock_3'']) = 2
   \<and> snd (snd (batch Linger 3 [calm_entity ''clock_1'', timeout_entity ''clock_2'',
                                 calm_entity ''clock_3''])) = Some (Inl (TimeoutError ''clock_2''))
   \<and> snd (run_recover timeout_world ''clock_2'' ''sub_2'' 1 1 3 True) = Some (Inl (TimeoutError ''clock_2''))
   \<and> snd (run_recover late_timeout_world ''clock_1'' ''sub_1'' 1 1 5 True)
       = Some (Inl (TimeoutError ''clock_1''))
   \<and> snd (run_linger retry_timeout_world ''clock_1'' ''sub_1'' 1 3 True)
       = Some (Inl (TimeoutError ''clock_1''))
   \<and> snd (through_retries (sw_fail retry_timeout_world) ''clock_1'' ''sub_1'')
       = Some (Inl (TimeoutError ''clock_1''))
   \<and> first_unreturned [Some (Inr ()), Some (Inl RemoteError), Some (Inr ())] = Some (Inl RemoteError)
   \<and> first_unreturned [Some (Inr ()), Some (Inr ())] = Some (Inr ())
   \<and> (\<exists>t. next_cycle_after 400 1 100 2592000 = Inr t
           \<and> move_to_cycle calm_cycle ''clock_1'' 400 1 = advance_clock settling_world ''clock_1'' t)
   \<and> move_to_cycle (calm_cycle\<lparr>cy_clock := Inl RemoteError\<rparr>) ''clock_1'' 400 1
       = ([], Some (Inl RemoteError))"
proof -
  let ?ens = "[calm_entity ''clock_1'', timeout_entity ''clock_2'', calm_entity ''clock_3'']"
  let ?li = "\<lparr>li_status = Some ''open'', li_next_payment_attempt = Some 1000\<rparr>"
  let ?at100 = "\<lparr>tc_frozen_time = 100, tc_status = ''ready''\<rparr>"
  let ?stuck = "(never_paid 1)\<lparr>rw_advance := never_ready\<rparr>"
  txt \<open>The month loops: the first month's advance is throttled eight times.\<close>
  have h1: "\<forall>j<2. snd (advance_test_clock (mw_module (throttled_first (0 + j))) ''clock_1''
                   (1735689600 + 2592000 * int (0 + (0 + j)))) \<noteq> None"
    using throttled_first_ends by blast
  have h2: "int 0 < 2
        \<and> (\<forall>j<min 3 (nat (2 - int 0)).
              snd (advance_test_clock (mw_module (throttled_first (0 + j))) ''clock_1''
                     (1735689600 + 2592000 * int (0 + (0 + j)))) \<noteq> None)"
    using throttled_first_ends by simp
  have wv: "concat (map (\<lambda>j. case snd (advance_test_clock (mw_module (throttled_first (0 + j)))
                                        ''clock_1'' (1735689600 + 2592000 * int (0 + (0 + j)))) of
                              Some (Inl e) \<Rightarrow> [(1735689600 + 2592000 * int (0 + (0 + j)), e)]
                            | Some (Inr tc) \<Rightarrow> []
                            | None \<Rightarrow> [])
                     [0..<2]) = [(1735689600, RuntimeError ''clock_1'' 8)]"
    by code_simp
  have two: "min 3 (nat (2 - int 0)) = 2" by simp
  note months = advance_failure_scope
      [where n = 2 and world = throttled_first and ?m2.0 = 0 and clock_id = "''clock_1''"
         and start_ts = 1735689600 and month = 0 and s = empty_summary]
  note a0 = months [THEN conjunct1, THEN mp, OF h1]
  from a0 have a: "\<exists>evs s'. active_months 2 0 throttled_first ''clock_1'' 1735689600 0 empty_summary
                   = Some (evs, s')
                 \<and> invoice_passes evs = 2
                 \<and> warnings evs = [(1735689600, RuntimeError ''clock_1'' 8)]"
    unfolding wv .
  note canceled = advance_failure_scope
      [where n = 3 and world = throttled_first and ?m2.0 = 0 and clock_id = "''clock_1''"
         and start_ts = 1735689600 and month = 0 and s = empty_summary and cancel_after = 2
         and remote = cancels_at_once]
  note b0 = canceled [THEN conjunct2, THEN conjunct1, THEN mp, OF h2]
  from b0 have b: "\<exists>evs s'. canceled_months 3 0 throttled_first ''clock_1'' 1735689600 0 2 cancels_at_once
                   empty_summary = Some (evs, s')
                 \<and> invoice_passes evs = 2
                 \<and> warnings evs = [(1735689600, RuntimeError ''clock_1'' 8)]"
    unfolding two wv .
  txt \<open>The batch: the second entity's first advance runs out of its polling budget.\<close>
  have calm: "snd (run_scenario Linger 3 (calm_entity ''clock_1'')) = Some (Inr ())"
    by code_simp
  have late: "snd (run_scenario Linger 3 (timeout_entity ''clock_2'')) = Some (Inl (TimeoutError ''clock_2''))"
    by code_simp
  have h3: "1 < length ?ens
        \<and> (\<forall>j<1. snd (run_scenario Linger 3 (?ens ! j)) = Some (Inr ()))
        \<and> snd (run_scenario Linger 3 (?ens ! 1)) = Some (Inl (TimeoutError ''clock_2''))"
    using calm late by simp
  have h4: "sw_setup timeout_world = None
        \<and> snd (advance_clock (cy_advance (sw_first timeout_world)) ''clock_2''
                 (sw_anchor timeout_world + 60)) = Some (Inl (TimeoutError ''clock_2''))"
    by (simp add: timeout_world_def calm_world_def calm_cycle_def never_ready_def advance_clock_def)
  note halts = advance_failure_scope
      [where i = 1 and ens = ?ens and scen = Linger and total_months = 3
         and e = "TimeoutError ''clock_2''" and w = timeout_world and tc_id = "''clock_2''"
         and e' = "TimeoutError ''clock_2''" and sub_id = "''sub_2''" and paid_months = 1
         and past_due_months = 1 and auto_advance = True]
  from halts [THEN conjunct2, THEN conjunct2, THEN conjunct1, THEN mp, OF h3] have c: "fst (batch Linger 3 ?ens) = Suc 1
      \<and> snd (snd (batch Linger 3 ?ens)) = Some (Inl (TimeoutError ''clock_2''))"
    by simp
  from halts [THEN conjunct2, THEN conjunct2, THEN conjunct2, THEN conjunct1, THEN mp, OF h4] have d: "snd (run_recover timeout_world ''clock_2'' ''sub_2'' 1 1 3 True)
                          = Some (Inl (TimeoutError ''clock_2''))"
    by simp
  txt \<open>A later paid month and a retry round whose polling runs out of its budget.\<close>
  note recover = advance_failure_scope
      [where w = late_timeout_world and tc_id = "''clock_1''" and sub_id = "''sub_1''"
         and paid_months = 1 and past_due_months = 1 and total_months = 5 and auto_advance = True,
       THEN conjunct2, THEN conjunct2, THEN conjunct2, THEN conjunct2, THEN conjunct2,
       THEN conjunct1]
  have e: "snd (run_recover late_timeout_world ''clock_1'' ''sub_1'' 1 1 5 True)
             = Some (Inl (TimeoutError ''clock_1''))"
    unfolding recover by code_simp
  note linger = advance_failure_scope
      [where w = retry_timeout_world and tc_id = "''clock_1''" and sub_id = "''sub_1''"
         and paid_months = 1 and total_months = 3 and auto_advance = True,
       THEN conjunct2, THEN conjunct2, THEN conjunct2, THEN conjunct2, THEN conjunct1]
  have f: "snd (run_linger retry_timeout_world ''clock_1'' ''sub_1'' 1 3 True)
             = Some (Inl (TimeoutError ''clock_1''))"
    unfolding linger by code_simp
  have h5: "rw_subscription ?stuck = Inr (Some ?li) \<and> li_status ?li \<noteq> Some ''paid''
        \<and> rw_clock ?stuck = Inr ?at100
        \<and> snd (advance_clock (rw_advance ?stuck) ''clock_1''
                 (if li_next_payment_attempt ?li \<noteq> None \<and> li_next_payment_attempt ?li \<noteq> Some 0
                  then (if the (li_next_payment_attempt ?li) + 60 \<le> tc_frozen_time ?at100
                        then tc_frozen_time ?at100 + 1
                        else the (li_next_payment_attempt ?li) + 60)
                  else tc_frozen_time ?at100 + 24 * 3600)) = Some (Inl (TimeoutError ''clock_1''))"
    by (simp add: never_paid_def never_ready_def advance_clock_def)
  note round = advance_failure_scope
      [where rw = ?stuck and li = ?li and c' = ?at100 and tc_id = "''clock_1''" and b = 60
         and ?e4.0 = "TimeoutError ''clock_1''"]
  from round [THEN conjunct2, THEN conjunct2, THEN conjunct2, THEN conjunct2, THEN conjunct2, THEN conjunct2, THEN conjunct2, THEN conjunct2, THEN conjunct2, THEN conjunct2, THEN conjunct2, THEN conjunct1, THEN mp, OF h5] have raised: "snd (retry_round ?stuck ''clock_1'' 60) = Raised (TimeoutError ''clock_1'')"
    by simp
  have h6: "(1::nat) < 10
        \<and> (\<forall>j<1. snd (retry_round (cy_retries (sw_fail retry_timeout_world) j) ''clock_1'' 60) = Next)
        \<and> snd (retry_round (cy_retries (sw_fail retry_timeout_world) 1) ''clock_1'' 60)
            = Raised (TimeoutError ''clock_1'')"
    using raised by (simp add: retry_timeout_world_def calm_world_def never_paid_goes_on)
  note retries = advance_failure_scope
      [where q = 1 and cw = "sw_fail retry_timeout_world" and tc_id = "''clock_1''"
         and ?e3.0 = "TimeoutError ''clock_1''" and sub_id = "''sub_1''"]
  from retries [THEN conjunct2, THEN conjunct2, THEN conjunct2, THEN conjunct2, THEN conjunct2, THEN conjunct2, THEN conjunct2, THEN conjunct2, THEN conjunct2, THEN conjunct2, THEN conjunct1, THEN mp, OF h6] have g: "snd (through_retries (sw_fail retry_timeout_world) ''clock_1'' ''sub_1'')
                             = Some (Inl (TimeoutError ''clock_1''))"
    by simp
  txt \<open>Sequences of statements.\<close>
  have h7: "1 < length [Some (Inr ()), Some (Inl RemoteError), Some (Inr ())]
        \<and> (\<forall>j<1. [Some (Inr ()), Some (Inl RemoteError), Some (Inr ())] ! j = Some (Inr ()))
        \<and> [Some (Inr ()), Some (Inl RemoteError), Some (Inr ())] ! 1 = Some (Inl RemoteError)"
    by simp
  note raises = advance_failure_scope
      [where p = 1 and rs = "[Some (Inr ()), Some (Inl RemoteError), Some (Inr ())]"
         and ?e1.0 = RemoteError]
  from raises [THEN conjunct2, THEN conjunct2, THEN conjunct2, THEN conjunct2, THEN conjunct2, THEN conjunct2, THEN conjunct2, THEN conjunct1, THEN mp, OF h7]
  have h: "first_unreturned [Some (Inr ()), Some (Inl RemoteError), Some (Inr ())]
             = Some (Inl RemoteError)"
    by simp
  have h8: "\<forall>r\<in>set [Some (Inr ()), Some (Inr ())]. r = Some (Inr () :: py_error + unit)"
    by simp
  note returns = advance_failure_scope [where rs = "[Some (Inr ()), Some (Inr ())]"]
  from returns [THEN conjunct2, THEN conjunct2, THEN conjunct2, THEN conjunct2, THEN conjunct2, THEN conjunct2, THEN conjunct1, THEN iffD2, OF h8] have k: "first_unreturned [Some (Inr ()), Some (Inr ())] = Some (Inr ())"
    by simp
  txt \<open>The move to a cycle.\<close>
  have h9: "cy_clock calm_cycle = Inr ?at100" by (simp add: calm_cycle_def)
  note move = advance_failure_scope
      [where cw = calm_cycle and c = ?at100 and anchor = 400 and idx = 1 and tc_id = "''clock_1''"]
  from move [THEN conjunct2, THEN conjunct2, THEN conjunct2, THEN conjunct2, THEN conjunct2, THEN conjunct2, THEN conjunct2, THEN conjunct2, THEN conjunct1, THEN mp, OF h9]
  have "\<exists>t. next_cycle_after 400 1 (tc_frozen_time ?at100) 2592000 = Inr t
           \<and> move_to_cycle calm_cycle ''clock_1'' 400 1
               = advance_clock (cy_advance calm_cycle) ''clock_1'' t"
    by simp
  then have l: "\<exists>t. next_cycle_after 400 1 100 2592000 = Inr t
           \<and> move_to_cycle calm_cycle ''clock_1'' 400 1 = advance_clock settling_world ''clock_1'' t"
    by (simp add: calm_cycle_def)
  have h10: "cy_clock (calm_cycle\<lparr>cy_clock := Inl RemoteError\<rparr>) = Inl RemoteError" by simp
  note unreachable = advance_failure_scope
      [where cw = "calm_cycle\<lparr>cy_clock := Inl RemoteError\<rparr>" and ?e2.0 = RemoteError
         and anchor = 400 and idx = 1 and tc_id = "''clock_1''"]
  from unreachable [THEN conjunct2, THEN conjunct2, THEN conjunct2, THEN conjunct2, THEN conjunct2, THEN conjunct2, THEN conjunct2, THEN conjunct2, THEN conjunct2, THEN conjunct1, THEN mp, OF h10]
  have m: "move_to_cycle (calm_cycle\<lparr>cy_clock := Inl RemoteError\<rparr>) ''clock_1'' 400 1
             = ([], Some (Inl RemoteError))"
    by simp
  from a b c d e f g h k l m show ?thesis by simp
qed

text \<open>
  C8 as stated has the run go on with the remaining entities. In the batch of
  \<^verbatim>\<open>generate_past_due_new.py\<close>, when the first advance of the first entity runs out of
  its polling budget, the \<^verbatim>\<open>TimeoutError\<close> leaves \<^verbatim>\<open>run_recover\<close> and \<^verbatim>\<open>main\<close>: one
  scenario was begun, the second entity never is.
\<close>

theorem batch_halts_on_first_failure:
  "batch Recover 4 [timeout_entity ''clock_1'', calm_entity ''clock_2''] =
     (1, [AdvanceCall ''clock_1'' 460], Some (Inl (TimeoutError ''clock_1'')))"
  by code_simp

end
